theory Spec2Isabelle
  imports Main "HOL-Library.Word"
begin

unbundle bit_operations_syntax

section \<open>Machine integers, cells and the data area\<close>

text \<open>
  The native machines work on JNI integers: \<open>jint\<close> is a signed 32-bit integer and
  \<open>jbyte\<close> a signed 8-bit integer. Both are words here; \<open>sint\<close> reads them as the C code
  does where the sign matters (comparisons, sign extension by \<open>scast\<close>), and \<open>+\<close> wraps.
\<close>

type_synonym jint = "32 word"
type_synonym jbyte = "8 word"

text \<open>The heap cell marker types (\<open>#define REF 0x01\<close>, \<open>#define STR 0x02\<close>).\<close>

definition REF_tag :: "'a::len word" where
  "REF_tag = 1"

definition STR_tag :: "'a::len word" where
  "STR_tag = 2"

text \<open>The sizes of the regions of the data area of the L3 and L2 machines.\<close>

definition REG_SIZE :: nat where
  "REG_SIZE = 10"

definition HEAP_SIZE :: nat where
  "HEAP_SIZE = 10000"

definition STACK_SIZE :: nat where
  "STACK_SIZE = 10000"

definition PDL_SIZE :: nat where
  "PDL_SIZE = 1000"

definition TOP :: nat where
  "TOP = REG_SIZE + HEAP_SIZE + STACK_SIZE + PDL_SIZE"

text \<open>The PDL is the last region: the cells from \<open>PDL_BASE\<close> up to \<open>TOP\<close>.\<close>

definition PDL_BASE :: nat where
  "PDL_BASE = REG_SIZE + HEAP_SIZE + STACK_SIZE"

text \<open>
  Reading or writing outside an allocated array is undefined behaviour in C; the model
  makes it the error \<open>OutOfBounds\<close>. Loops that need not terminate take a fuel argument
  and answer \<open>OutOfFuel\<close> when it is used up, so that "the code returns" is the
  statement that some amount of fuel gives an \<open>Inr\<close> result.
\<close>

datatype error = OutOfBounds | OutOfFuel

definition bindE :: "error + 'a \<Rightarrow> ('a \<Rightarrow> error + 'b) \<Rightarrow> error + 'b" where
  "bindE m f = (case m of Inl e \<Rightarrow> Inl e | Inr x \<Rightarrow> f x)"

text \<open>
  An array of \<open>n\<close> \<open>jint\<close> cells obtained from \<open>malloc\<close> is a map from index to cell
  together with its size \<open>n\<close>. An index (a \<open>jint\<close>) is valid when it is non-negative and
  below \<open>n\<close>; for \<open>n \<le> 2^31\<close> that is \<open>unat a < n\<close>, a negative \<open>jint\<close> being an unsigned
  value of at least \<open>2^31\<close>.
\<close>

type_synonym mem = "jint \<Rightarrow> jint"

definition rd :: "nat \<Rightarrow> mem \<Rightarrow> jint \<Rightarrow> error + jint" where
  "rd n d a = (if unat a < n then Inr (d a) else Inl OutOfBounds)"

definition wr :: "nat \<Rightarrow> mem \<Rightarrow> jint \<Rightarrow> jint \<Rightarrow> error + mem" where
  "wr n d a v = (if unat a < n then Inr (d(a := v)) else Inl OutOfBounds)"

text \<open>
  \<open>(jbyte)((tmp & 0xFF000000) >> 24)\<close> and \<open>tmp & 0x00FFFFFF\<close>: the tag byte and the
  24-bit payload of a cell. The constant \<open>0xFF000000\<close> is unsigned in C, so the shift
  is a logical one.
\<close>

definition tag_of :: "jint \<Rightarrow> jbyte" where
  "tag_of tmp = ucast (drop_bit 24 (tmp AND 0xFF000000))"

definition val_of :: "jint \<Rightarrow> jint" where
  "val_of tmp = tmp AND 0x00FFFFFF"

text \<open>\<open>(TAG << 24) | (a & 0xFFFFFF)\<close>: the cell with marker \<open>t\<close> and payload \<open>a\<close>.\<close>

definition cell :: "jint \<Rightarrow> jint \<Rightarrow> jint" where
  "cell t a = push_bit 24 t OR (a AND 0xFFFFFF)"

section \<open>The dereference loop\<close>

text \<open>
  The loop of \<open>l3deref\<close>, \<open>l2jitderef\<close> and of \<open>deref\<close> in the L0 machine (the same text in
  the three files) on an array of \<open>sz\<close> cells. Its variables are \<open>addr\<close>, \<open>derefTag\<close>
  and \<open>derefVal\<close>; the result is their value when the loop is left.
\<close>

fun deref_loop :: "nat \<Rightarrow> nat \<Rightarrow> mem \<Rightarrow> jint \<Rightarrow> jbyte \<Rightarrow> jint \<Rightarrow> error + (jint \<times> jbyte \<times> jint)" where
  "deref_loop 0 sz d addr derefTag derefVal = Inl OutOfFuel"
| "deref_loop (Suc n) sz d addr derefTag derefVal =
     (if derefTag = REF_tag then
        bindE (rd sz d derefVal) (\<lambda>tmp.
          if derefVal = val_of tmp then Inr (derefVal, tag_of tmp, derefVal)
          else deref_loop n sz d derefVal (tag_of tmp) (val_of tmp))
      else Inr (addr, derefTag, derefVal))"

definition deref_on :: "nat \<Rightarrow> nat \<Rightarrow> mem \<Rightarrow> jint \<Rightarrow> error + (jint \<times> jbyte \<times> jint)" where
  "deref_on n sz d a =
     bindE (rd sz d a) (\<lambda>tmp. deref_loop n sz d a (tag_of tmp) (val_of tmp))"

section \<open>The L3 machine\<close>

record l3MachineState =
  ip :: jint
  cp :: jint
  data :: mem
  hp :: jint
  sp :: jint
  up :: jint
  ep :: jint
  esp :: jint
  writeMode :: bool
  derefTag :: jbyte
  derefVal :: jint

text \<open>The unification stack (PDL) lives at the top of the data area and grows downwards.\<close>

definition l3uPush :: "jint \<Rightarrow> l3MachineState \<Rightarrow> error + l3MachineState" where
  "l3uPush val s =
     bindE (wr TOP (data s) (up s - 1) val) (\<lambda>d. Inr (s\<lparr>data := d, up := up s - 1\<rparr>))"

definition l3uPop :: "l3MachineState \<Rightarrow> error + (jint \<times> l3MachineState)" where
  "l3uPop s = bindE (rd TOP (data s) (up s)) (\<lambda>v. Inr (v, s\<lparr>up := up s + 1\<rparr>))"

definition l3uClear :: "l3MachineState \<Rightarrow> l3MachineState" where
  "l3uClear s = s\<lparr>up := of_nat TOP\<rparr>"

definition l3uEmpty :: "l3MachineState \<Rightarrow> bool" where
  "l3uEmpty s = (int TOP \<le> sint (up s))"

definition l3deref :: "nat \<Rightarrow> l3MachineState \<Rightarrow> jint \<Rightarrow> error + (jint \<times> l3MachineState)" where
  "l3deref n s a =
     bindE (deref_on n TOP (data s) a) (\<lambda>(addr, t, v).
       Inr (addr, s\<lparr>derefTag := t, derefVal := v\<rparr>))"

text \<open>
  \<open>for (i = 1; i <= n1; i++) { l3uPush(v1 + i); l3uPush(v2 + i); }\<close> over the values
  of \<open>i\<close> in turn.
\<close>

fun l3push_args :: "jint \<Rightarrow> jint \<Rightarrow> nat list \<Rightarrow> l3MachineState \<Rightarrow> error + l3MachineState" where
  "l3push_args v1 v2 [] s = Inr s"
| "l3push_args v1 v2 (i # is) s =
     bindE (l3uPush (v1 + of_nat i) s) (\<lambda>s1.
     bindE (l3uPush (v2 + of_nat i) s1) (\<lambda>s2.
       l3push_args v1 v2 is s2))"

text \<open>
  The statement \<open>if (d1 != d2) { ... }\<close> of the loop of \<open>l3unify\<close>, on the two dereferenced
  addresses with their tags and values; the result holds the new value of \<open>fail\<close>.
  \<open>n1\<close> is a \<open>jbyte\<close>: the loop over \<open>i\<close> compares it as a signed value.
\<close>

definition l3unify_pair ::
  "jint \<Rightarrow> jbyte \<Rightarrow> jint \<Rightarrow> jint \<Rightarrow> jbyte \<Rightarrow> jint \<Rightarrow> l3MachineState \<Rightarrow> error + (bool \<times> l3MachineState)" where
  "l3unify_pair d1 t1 v1 d2 t2 v2 s =
     (if d1 \<noteq> d2 then
        if t1 = REF_tag then
          bindE (wr TOP (data s) d1 (cell REF_tag d2)) (\<lambda>d. Inr (False, s\<lparr>data := d\<rparr>))
        else if t2 = REF_tag then
          bindE (wr TOP (data s) d2 (cell REF_tag d1)) (\<lambda>d. Inr (False, s\<lparr>data := d\<rparr>))
        else
          bindE (rd TOP (data s) v1) (\<lambda>f_n1.
          bindE (rd TOP (data s) v2) (\<lambda>f_n2.
          let n1 = (ucast (f_n1 AND 0xFF) :: jbyte) in
          if f_n1 = f_n2 then
            bindE (l3push_args v1 v2 [1 ..< Suc (nat (sint n1))] s) (\<lambda>s1. Inr (False, s1))
          else Inr (True, s)))
      else Inr (False, s))"

text \<open>The body of the loop of \<open>l3unify\<close>: two pops, each dereferenced, then the statement above.\<close>

definition l3unify_body :: "nat \<Rightarrow> l3MachineState \<Rightarrow> error + (bool \<times> l3MachineState)" where
  "l3unify_body n s =
     bindE (l3uPop s) (\<lambda>(x1, s1).
     bindE (l3deref n s1 x1) (\<lambda>(d1, s2).
     let t1 = derefTag s2; v1 = derefVal s2 in
     bindE (l3uPop s2) (\<lambda>(x2, s3).
     bindE (l3deref n s3 x2) (\<lambda>(d2, s4).
     let t2 = derefTag s4; v2 = derefVal s4 in
       l3unify_pair d1 t1 v1 d2 t2 v2 s4))))"

fun l3unify_loop :: "nat \<Rightarrow> l3MachineState \<Rightarrow> error + (bool \<times> l3MachineState)" where
  "l3unify_loop 0 s = Inl OutOfFuel"
| "l3unify_loop (Suc n) s =
     (if \<not> l3uEmpty s then
        bindE (l3unify_body n s) (\<lambda>(fail, s1).
          if fail then Inr (True, s1) else l3unify_loop n s1)
      else Inr (False, s))"

text \<open>\<open>l3unify\<close> returns \<open>JNI_TRUE\<close> when \<open>fail\<close> is false at the end.\<close>

definition l3unify :: "nat \<Rightarrow> l3MachineState \<Rightarrow> jint \<Rightarrow> jint \<Rightarrow> error + (bool \<times> l3MachineState)" where
  "l3unify n s a1 a2 =
     bindE (l3uPush a1 s) (\<lambda>s1.
     bindE (l3uPush a2 s1) (\<lambda>s2.
     bindE (l3unify_loop n s2) (\<lambda>(fail, s3). Inr (\<not> fail, s3))))"

text \<open>\<open>nativeReset\<close>: a fresh state and a fresh data area, every cell set to 0.\<close>

definition nativeReset :: l3MachineState where
  "nativeReset =
     \<lparr> ip = 0, cp = 0, data = (\<lambda>i. 0),
       hp = of_nat REG_SIZE, sp = of_nat REG_SIZE, up = of_nat TOP,
       ep = of_nat (REG_SIZE + HEAP_SIZE), esp = of_nat (REG_SIZE + HEAP_SIZE),
       writeMode = False, derefTag = 0, derefVal = 0 \<rparr>"

section \<open>The L3 byte code interpreter\<close>

text \<open>The machine instruction types and the addressing modes.\<close>

definition PUT_STRUC :: jbyte where "PUT_STRUC = 0x01"
definition SET_VAR :: jbyte where "SET_VAR = 0x02"
definition SET_VAL :: jbyte where "SET_VAL = 0x03"
definition GET_STRUC :: jbyte where "GET_STRUC = 0x04"
definition UNIFY_VAR :: jbyte where "UNIFY_VAR = 0x05"
definition UNIFY_VAL :: jbyte where "UNIFY_VAL = 0x06"
definition PUT_VAR :: jbyte where "PUT_VAR = 0x07"
definition PUT_VAL :: jbyte where "PUT_VAL = 0x08"
definition GET_VAR :: jbyte where "GET_VAR = 0x09"
definition GET_VAL :: jbyte where "GET_VAL = 0x0a"
definition CALL :: jbyte where "CALL = 0x0b"
definition PROCEED :: jbyte where "PROCEED = 0x0c"
definition ALLOCATE :: jbyte where "ALLOCATE = 0x0d"
definition DEALLOCATE :: jbyte where "DEALLOCATE = 0x0e"

definition REG_ADDR :: jbyte where "REG_ADDR = 0x01"
definition STACK_ADDR :: jbyte where "STACK_ADDR = 0x02"

text \<open>
  The code buffer is an array of \<open>jbyte\<close> of the buffer's capacity (taken to fit a
  \<open>jint\<close>, as \<open>jsize length\<close> supposes). \<open>code[i]\<close> is a bounds-checked read, and
  \<open>*(jint*)(code + i)\<close> reads four bytes, the least significant first (the byte order
  of the x86 hosts the library is built for).
\<close>

definition code_at :: "jbyte list \<Rightarrow> jint \<Rightarrow> error + jbyte" where
  "code_at code i = (if unat i < length code then Inr (code ! unat i) else Inl OutOfBounds)"

definition le32 :: "jbyte \<Rightarrow> jbyte \<Rightarrow> jbyte \<Rightarrow> jbyte \<Rightarrow> jint" where
  "le32 b0 b1 b2 b3 =
     ucast b0 OR push_bit 8 (ucast b1) OR push_bit 16 (ucast b2) OR push_bit 24 (ucast b3)"

definition jint_at :: "jbyte list \<Rightarrow> jint \<Rightarrow> error + jint" where
  "jint_at code i =
     bindE (code_at code i) (\<lambda>b0.
     bindE (code_at code (i + 1)) (\<lambda>b1.
     bindE (code_at code (i + 2)) (\<lambda>b2.
     bindE (code_at code (i + 3)) (\<lambda>b3.
       Inr (le32 b0 b1 b2 b3)))))"

text \<open>
  The local variables of \<open>execute\<close>: the copies of the machine registers that the
  decode loop works on, and \<open>failed\<close>. They are written back to the machine state when
  the loop is left.
\<close>

record l3Locals =
  l_hp :: jint
  l_sp :: jint
  l_writeMode :: bool
  l_ip :: jint
  l_cp :: jint
  l_ep :: jint
  l_esp :: jint
  l_failed :: bool

definition l3rd :: "l3MachineState \<Rightarrow> jint \<Rightarrow> error + jint" where
  "l3rd s a = rd TOP (data s) a"

definition l3wr :: "l3MachineState \<Rightarrow> jint \<Rightarrow> jint \<Rightarrow> error + l3MachineState" where
  "l3wr s a v = bindE (wr TOP (data s) a v) (\<lambda>d. Inr (s\<lparr>data := d\<rparr>))"

text \<open>\<open>(jint)code[ip + 2] + ((mode == STACK_ADDR) ? (ep + 3) : 0)\<close>\<close>

definition xi_addr :: "jbyte list \<Rightarrow> l3Locals \<Rightarrow> error + jint" where
  "xi_addr code l =
     bindE (code_at code (l_ip l + 1)) (\<lambda>mode.
     bindE (code_at code (l_ip l + 2)) (\<lambda>b.
       Inr (scast b + (if mode = STACK_ADDR then l_ep l + 3 else 0))))"

definition l3_PUT_STRUC :: "jbyte list \<Rightarrow> l3Locals \<Rightarrow> l3MachineState \<Rightarrow> error + (l3Locals \<times> l3MachineState)" where
  "l3_PUT_STRUC code l s =
     bindE (xi_addr code l) (\<lambda>xi.
     bindE (jint_at code (l_ip l + 3)) (\<lambda>f_n.
     bindE (l3wr s (l_hp l) (cell STR_tag (l_hp l + 1))) (\<lambda>s1.
     bindE (l3wr s1 (l_hp l + 1) f_n) (\<lambda>s2.
     bindE (l3rd s2 (l_hp l)) (\<lambda>v.
     bindE (l3wr s2 xi v) (\<lambda>s3.
       Inr (l\<lparr>l_hp := l_hp l + 2, l_ip := l_ip l + 7\<rparr>, s3)))))))"

definition l3_SET_VAR :: "jbyte list \<Rightarrow> l3Locals \<Rightarrow> l3MachineState \<Rightarrow> error + (l3Locals \<times> l3MachineState)" where
  "l3_SET_VAR code l s =
     bindE (xi_addr code l) (\<lambda>xi.
     bindE (l3wr s (l_hp l) (cell REF_tag (l_hp l))) (\<lambda>s1.
     bindE (l3rd s1 (l_hp l)) (\<lambda>v.
     bindE (l3wr s1 xi v) (\<lambda>s2.
       Inr (l\<lparr>l_hp := l_hp l + 1, l_ip := l_ip l + 3\<rparr>, s2)))))"

definition l3_SET_VAL :: "jbyte list \<Rightarrow> l3Locals \<Rightarrow> l3MachineState \<Rightarrow> error + (l3Locals \<times> l3MachineState)" where
  "l3_SET_VAL code l s =
     bindE (xi_addr code l) (\<lambda>xi.
     bindE (l3rd s xi) (\<lambda>v.
     bindE (l3wr s (l_hp l) v) (\<lambda>s1.
       Inr (l\<lparr>l_hp := l_hp l + 1, l_ip := l_ip l + 3\<rparr>, s1))))"

text \<open>
  \<open>GET_STRUC\<close>: the inner \<open>switch (tag)\<close> has the cases \<open>REF\<close> and \<open>STR\<close> and no
  default, so any other tag changes nothing; \<open>ip += 7\<close> follows the switch in every case.
\<close>

definition l3_GET_STRUC :: "nat \<Rightarrow> jbyte list \<Rightarrow> l3Locals \<Rightarrow> l3MachineState \<Rightarrow> error + (l3Locals \<times> l3MachineState)" where
  "l3_GET_STRUC n code l s =
     bindE (xi_addr code l) (\<lambda>xi.
     bindE (jint_at code (l_ip l + 3)) (\<lambda>f_n.
     bindE (l3deref n s xi) (\<lambda>(addr, s1).
     let tag = derefTag s1; a = derefVal s1 in
     if tag = REF_tag then
       bindE (l3wr s1 (l_hp l) (cell STR_tag (l_hp l + 1))) (\<lambda>s2.
       bindE (l3wr s2 (l_hp l + 1) f_n) (\<lambda>s3.
       bindE (l3wr s3 addr (cell REF_tag (l_hp l))) (\<lambda>s4.
         Inr (l\<lparr>l_hp := l_hp l + 2, l_writeMode := True, l_ip := l_ip l + 7\<rparr>, s4))))
     else if tag = STR_tag then
       bindE (l3rd s1 a) (\<lambda>v.
         if v = f_n then Inr (l\<lparr>l_sp := a + 1, l_writeMode := False, l_ip := l_ip l + 7\<rparr>, s1)
         else Inr (l\<lparr>l_failed := True, l_ip := l_ip l + 7\<rparr>, s1))
     else Inr (l\<lparr>l_ip := l_ip l + 7\<rparr>, s1))))"

definition l3_UNIFY_VAR :: "jbyte list \<Rightarrow> l3Locals \<Rightarrow> l3MachineState \<Rightarrow> error + (l3Locals \<times> l3MachineState)" where
  "l3_UNIFY_VAR code l s =
     bindE (xi_addr code l) (\<lambda>xi.
     if \<not> l_writeMode l then
       bindE (l3rd s (l_sp l)) (\<lambda>v.
       bindE (l3wr s xi v) (\<lambda>s1.
         Inr (l\<lparr>l_sp := l_sp l + 1, l_ip := l_ip l + 3\<rparr>, s1)))
     else
       bindE (l3wr s (l_hp l) (cell REF_tag (l_hp l))) (\<lambda>s1.
       bindE (l3rd s1 (l_hp l)) (\<lambda>v.
       bindE (l3wr s1 xi v) (\<lambda>s2.
         Inr (l\<lparr>l_hp := l_hp l + 1, l_sp := l_sp l + 1, l_ip := l_ip l + 3\<rparr>, s2)))))"

definition l3_UNIFY_VAL :: "nat \<Rightarrow> jbyte list \<Rightarrow> l3Locals \<Rightarrow> l3MachineState \<Rightarrow> error + (l3Locals \<times> l3MachineState)" where
  "l3_UNIFY_VAL n code l s =
     bindE (xi_addr code l) (\<lambda>xi.
     if \<not> l_writeMode l then
       bindE (l3unify n s xi (l_sp l)) (\<lambda>(r, s1).
         Inr (l\<lparr>l_failed := \<not> r, l_sp := l_sp l + 1, l_ip := l_ip l + 3\<rparr>, s1))
     else
       bindE (l3rd s xi) (\<lambda>v.
       bindE (l3wr s (l_hp l) v) (\<lambda>s1.
         Inr (l\<lparr>l_hp := l_hp l + 1, l_sp := l_sp l + 1, l_ip := l_ip l + 3\<rparr>, s1))))"

text \<open>In the next four instructions \<open>ai\<close> is a \<open>jbyte\<close>, sign-extended when it indexes \<open>data\<close>.\<close>

definition l3_PUT_VAR :: "jbyte list \<Rightarrow> l3Locals \<Rightarrow> l3MachineState \<Rightarrow> error + (l3Locals \<times> l3MachineState)" where
  "l3_PUT_VAR code l s =
     bindE (xi_addr code l) (\<lambda>xi.
     bindE (code_at code (l_ip l + 3)) (\<lambda>ai.
     bindE (l3wr s (l_hp l) (cell REF_tag (l_hp l))) (\<lambda>s1.
     bindE (l3rd s1 (l_hp l)) (\<lambda>v.
     bindE (l3wr s1 xi v) (\<lambda>s2.
     bindE (l3rd s2 (l_hp l)) (\<lambda>w.
     bindE (l3wr s2 (scast ai) w) (\<lambda>s3.
       Inr (l\<lparr>l_hp := l_hp l + 1, l_ip := l_ip l + 4\<rparr>, s3))))))))"

definition l3_PUT_VAL :: "jbyte list \<Rightarrow> l3Locals \<Rightarrow> l3MachineState \<Rightarrow> error + (l3Locals \<times> l3MachineState)" where
  "l3_PUT_VAL code l s =
     bindE (xi_addr code l) (\<lambda>xi.
     bindE (code_at code (l_ip l + 3)) (\<lambda>ai.
     bindE (l3rd s xi) (\<lambda>v.
     bindE (l3wr s (scast ai) v) (\<lambda>s1.
       Inr (l\<lparr>l_ip := l_ip l + 4\<rparr>, s1)))))"

definition l3_GET_VAR :: "jbyte list \<Rightarrow> l3Locals \<Rightarrow> l3MachineState \<Rightarrow> error + (l3Locals \<times> l3MachineState)" where
  "l3_GET_VAR code l s =
     bindE (xi_addr code l) (\<lambda>xi.
     bindE (code_at code (l_ip l + 3)) (\<lambda>ai.
     bindE (l3rd s (scast ai)) (\<lambda>v.
     bindE (l3wr s xi v) (\<lambda>s1.
       Inr (l\<lparr>l_ip := l_ip l + 4\<rparr>, s1)))))"

definition l3_GET_VAL :: "nat \<Rightarrow> jbyte list \<Rightarrow> l3Locals \<Rightarrow> l3MachineState \<Rightarrow> error + (l3Locals \<times> l3MachineState)" where
  "l3_GET_VAL n code l s =
     bindE (xi_addr code l) (\<lambda>xi.
     bindE (code_at code (l_ip l + 3)) (\<lambda>ai.
     bindE (l3unify n s xi (scast ai)) (\<lambda>(r, s1).
       Inr (l\<lparr>l_failed := \<not> r, l_ip := l_ip l + 4\<rparr>, s1))))"

definition l3_CALL :: "jbyte list \<Rightarrow> l3Locals \<Rightarrow> l3MachineState \<Rightarrow> error + (l3Locals \<times> l3MachineState)" where
  "l3_CALL code l s =
     bindE (jint_at code (l_ip l + 1)) (\<lambda>p_n.
       if p_n = - 1 then Inr (l\<lparr>l_failed := True\<rparr>, s)
       else Inr (l\<lparr>l_cp := l_ip l + 5, l_ip := p_n\<rparr>, s))"

definition l3_PROCEED :: "l3Locals \<Rightarrow> l3MachineState \<Rightarrow> error + (l3Locals \<times> l3MachineState)" where
  "l3_PROCEED l s = Inr (l\<lparr>l_ip := l_cp l\<rparr>, s)"

definition l3_ALLOCATE :: "jbyte list \<Rightarrow> l3Locals \<Rightarrow> l3MachineState \<Rightarrow> error + (l3Locals \<times> l3MachineState)" where
  "l3_ALLOCATE code l s =
     bindE (code_at code (l_ip l + 1)) (\<lambda>b.
     let n = (scast b :: jint) in
     bindE (l3wr s (l_esp l) (l_ep l)) (\<lambda>s1.
     bindE (l3wr s1 (l_esp l + 1) (l_cp l)) (\<lambda>s2.
     bindE (l3wr s2 (l_esp l + 2) n) (\<lambda>s3.
       Inr (l\<lparr>l_ep := l_esp l, l_esp := l_esp l + n + 3, l_ip := l_ip l + 2\<rparr>, s3)))))"

text \<open>
  \<open>DEALLOCATE\<close>: \<open>esp = ep; ep = data[ep]; ip = data[ep + 1];\<close> in this order, so
  the second read uses the new value of \<open>ep\<close>.
\<close>

definition l3_DEALLOCATE :: "l3Locals \<Rightarrow> l3MachineState \<Rightarrow> error + (l3Locals \<times> l3MachineState)" where
  "l3_DEALLOCATE l s =
     bindE (l3rd s (l_ep l)) (\<lambda>ep1.
     bindE (l3rd s (ep1 + 1)) (\<lambda>ip1.
       Inr (l\<lparr>l_esp := l_ep l, l_ep := ep1, l_ip := ip1\<rparr>, s)))"

text \<open>One turn of the decode loop: \<open>instruction = code[ip]\<close> and the \<open>switch\<close> on it.\<close>

definition l3_step :: "nat \<Rightarrow> jbyte list \<Rightarrow> l3Locals \<Rightarrow> l3MachineState \<Rightarrow> error + (l3Locals \<times> l3MachineState)" where
  "l3_step n code l s =
     bindE (code_at code (l_ip l)) (\<lambda>instruction.
       if instruction = PUT_STRUC then l3_PUT_STRUC code l s
       else if instruction = SET_VAR then l3_SET_VAR code l s
       else if instruction = SET_VAL then l3_SET_VAL code l s
       else if instruction = GET_STRUC then l3_GET_STRUC n code l s
       else if instruction = UNIFY_VAR then l3_UNIFY_VAR code l s
       else if instruction = UNIFY_VAL then l3_UNIFY_VAL n code l s
       else if instruction = PUT_VAR then l3_PUT_VAR code l s
       else if instruction = PUT_VAL then l3_PUT_VAL code l s
       else if instruction = GET_VAR then l3_GET_VAR code l s
       else if instruction = GET_VAL then l3_GET_VAL n code l s
       else if instruction = CALL then l3_CALL code l s
       else if instruction = PROCEED then l3_PROCEED l s
       else if instruction = ALLOCATE then l3_ALLOCATE code l s
       else if instruction = DEALLOCATE then l3_DEALLOCATE l s
       else Inr (l\<lparr>l_failed := True\<rparr>, s))"

text \<open>\<open>while (failed == JNI_FALSE && (ip < length))\<close>\<close>

fun l3_loop :: "nat \<Rightarrow> jbyte list \<Rightarrow> l3Locals \<Rightarrow> l3MachineState \<Rightarrow> error + (l3Locals \<times> l3MachineState)" where
  "l3_loop 0 code l s = Inl OutOfFuel"
| "l3_loop (Suc n) code l s =
     (if \<not> l_failed l \<and> sint (l_ip l) < int (length code) then
        bindE (l3_step n code l s) (\<lambda>(l1, s1). l3_loop n code l1 s1)
      else Inr (l, s))"

text \<open>The locals and the machine state when the decode loop is entered.\<close>

definition l3_entry :: "l3MachineState \<Rightarrow> jbyte list \<Rightarrow> jint \<Rightarrow> l3Locals \<times> l3MachineState" where
  "l3_entry s code offset =
     (\<lparr> l_hp = hp s, l_sp = sp s, l_writeMode = writeMode s, l_ip = offset,
        l_cp = of_nat (length code), l_ep = ep s, l_esp = esp s, l_failed = False \<rparr>,
      l3uClear s)"

text \<open>\<open>execute\<close>: the result is \<open>JNI_TRUE\<close> when \<open>failed\<close> is false at the end.\<close>

definition execute :: "nat \<Rightarrow> l3MachineState \<Rightarrow> jbyte list \<Rightarrow> jint \<Rightarrow> error + (bool \<times> l3MachineState)" where
  "execute n s code offset =
     (case l3_entry s code offset of (l0, s0) \<Rightarrow>
        bindE (l3_loop n code l0 s0) (\<lambda>(l, s1).
          Inr (\<not> l_failed l,
               s1\<lparr>hp := l_hp l, sp := l_sp l, cp := l_cp l, ep := l_ep l, esp := l_esp l,
                  writeMode := l_writeMode l\<rparr>)))"

text \<open>The inspection functions of the L3 machine.\<close>

definition deref :: "nat \<Rightarrow> l3MachineState \<Rightarrow> jint \<Rightarrow> error + (jint \<times> l3MachineState)" where
  "deref n s a = l3deref n s a"

definition derefStack :: "nat \<Rightarrow> l3MachineState \<Rightarrow> jint \<Rightarrow> error + (jint \<times> l3MachineState)" where
  "derefStack n s a = l3deref n s (a + ep s + 3)"

definition getDerefTag :: "l3MachineState \<Rightarrow> jbyte" where
  "getDerefTag s = derefTag s"

definition getDerefVal :: "l3MachineState \<Rightarrow> jint" where
  "getDerefVal s = derefVal s"

definition getHeap :: "l3MachineState \<Rightarrow> jint \<Rightarrow> error + jint" where
  "getHeap s addr = rd TOP (data s) addr"

section \<open>The L2 (JIT) machine: dereferencing and inspection\<close>

text \<open>
  The state vector of the L2 machine. Its data area has \<open>TOP\<close> cells as in L3; the
  results of the last dereference are two variables of the library, outside the vector.
\<close>

record l2jitMachineState =
  heapBasePtr :: mem
  l2_hp :: jint
  l2_sp :: jint
  l2_up :: jint
  l2_ep :: jint
  l2_esp :: jint
  l2_wm :: jint

record l2Machine =
  l2state :: l2jitMachineState
  l2_derefTag :: jbyte
  l2_derefVal :: jint

text \<open>
  The state that the generated function \<open>reset_l2_machine\<close> builds. The heap comes from
  \<open>malloc\<close> and is not initialised: \<open>h\<close> is whatever it holds.
\<close>

definition l2_reset_state :: "mem \<Rightarrow> l2jitMachineState" where
  "l2_reset_state h =
     \<lparr> heapBasePtr = h, l2_hp = of_nat REG_SIZE, l2_sp = of_nat REG_SIZE, l2_up = of_nat TOP,
       l2_ep = of_nat (REG_SIZE + HEAP_SIZE), l2_esp = of_nat (REG_SIZE + HEAP_SIZE), l2_wm = 0 \<rparr>"

text \<open>\<open>l2jitderef\<close> returns the address only: its two assignments to the state are commented out.\<close>

definition l2jitderef :: "nat \<Rightarrow> l2jitMachineState \<Rightarrow> jint \<Rightarrow> error + jint" where
  "l2jitderef n st a =
     bindE (deref_on n TOP (heapBasePtr st) a) (\<lambda>(addr, t, v). Inr addr)"

text \<open>The inspection functions \<open>deref\<close> and \<open>derefStack\<close> of the L2 machine read the cell again.\<close>

definition l2_deref :: "nat \<Rightarrow> l2Machine \<Rightarrow> jint \<Rightarrow> error + (jint \<times> l2Machine)" where
  "l2_deref n m a =
     bindE (l2jitderef n (l2state m) a) (\<lambda>addr.
     bindE (rd TOP (heapBasePtr (l2state m)) addr) (\<lambda>heapCell.
       Inr (addr, m\<lparr>l2_derefTag := tag_of heapCell, l2_derefVal := val_of heapCell\<rparr>)))"

definition l2_derefStack :: "nat \<Rightarrow> l2Machine \<Rightarrow> jint \<Rightarrow> error + (jint \<times> l2Machine)" where
  "l2_derefStack n m a =
     bindE (l2jitderef n (l2state m) (a + l2_ep (l2state m) + 2)) (\<lambda>addr.
     bindE (rd TOP (heapBasePtr (l2state m)) addr) (\<lambda>heapCell.
       Inr (addr, m\<lparr>l2_derefTag := tag_of heapCell, l2_derefVal := val_of heapCell\<rparr>)))"



section \<open>The L0 machine\<close>

text \<open>
  The L0 machine keeps its heap (registers first) and its unification stack in two
  arrays of \<open>REG_SIZE + HEAP_SIZE\<close> and \<open>USTACK_SIZE\<close> cells; the stack grows upwards and
  is empty when \<open>up\<close> is \<open>-1\<close>.
\<close>

definition USTACK_SIZE :: nat where
  "USTACK_SIZE = 1000"

definition L0_HEAP :: nat where
  "L0_HEAP = REG_SIZE + HEAP_SIZE"

record l0MachineState =
  l0_ip :: jint
  l0_heap :: mem
  l0_hp :: jint
  l0_sp :: jint
  l0_ustack :: mem
  l0_up :: jint
  l0_writeMode :: bool
  l0_derefTag :: jbyte
  l0_derefVal :: jint

text \<open>
  \<open>l0reset\<close> allocates the state and the two arrays and sets no cell: \<open>i\<close>, \<open>h\<close> and \<open>u\<close>
  are what the fresh memory holds for \<open>ip\<close>, the heap and the stack.
\<close>

definition l0reset :: "jint \<Rightarrow> mem \<Rightarrow> mem \<Rightarrow> l0MachineState" where
  "l0reset i h u =
     \<lparr> l0_ip = i, l0_heap = h, l0_hp = of_nat REG_SIZE, l0_sp = of_nat REG_SIZE,
       l0_ustack = u, l0_up = - 1, l0_writeMode = False, l0_derefTag = 0, l0_derefVal = 0 \<rparr>"

definition uPush :: "jint \<Rightarrow> l0MachineState \<Rightarrow> error + l0MachineState" where
  "uPush val s =
     bindE (wr USTACK_SIZE (l0_ustack s) (l0_up s + 1) val) (\<lambda>u.
       Inr (s\<lparr>l0_ustack := u, l0_up := l0_up s + 1\<rparr>))"

definition uPop :: "l0MachineState \<Rightarrow> error + (jint \<times> l0MachineState)" where
  "uPop s = bindE (rd USTACK_SIZE (l0_ustack s) (l0_up s)) (\<lambda>v. Inr (v, s\<lparr>l0_up := l0_up s - 1\<rparr>))"

definition uClear :: "l0MachineState \<Rightarrow> l0MachineState" where
  "uClear s = s\<lparr>l0_up := - 1\<rparr>"

definition uEmpty :: "l0MachineState \<Rightarrow> bool" where
  "uEmpty s = (l0_up s = - 1)"

definition l0_deref :: "nat \<Rightarrow> l0MachineState \<Rightarrow> jint \<Rightarrow> error + (jint \<times> l0MachineState)" where
  "l0_deref n s a =
     bindE (deref_on n L0_HEAP (l0_heap s) a) (\<lambda>(addr, t, v).
       Inr (addr, s\<lparr>l0_derefTag := t, l0_derefVal := v\<rparr>))"

definition l0rd :: "l0MachineState \<Rightarrow> jint \<Rightarrow> error + jint" where
  "l0rd s a = rd L0_HEAP (l0_heap s) a"

definition l0wr :: "l0MachineState \<Rightarrow> jint \<Rightarrow> jint \<Rightarrow> error + l0MachineState" where
  "l0wr s a v = bindE (wr L0_HEAP (l0_heap s) a v) (\<lambda>h. Inr (s\<lparr>l0_heap := h\<rparr>))"

fun l0push_args :: "jint \<Rightarrow> jint \<Rightarrow> nat list \<Rightarrow> l0MachineState \<Rightarrow> error + l0MachineState" where
  "l0push_args v1 v2 [] s = Inr s"
| "l0push_args v1 v2 (i # is) s =
     bindE (uPush (v1 + of_nat i) s) (\<lambda>s1.
     bindE (uPush (v2 + of_nat i) s1) (\<lambda>s2.
       l0push_args v1 v2 is s2))"

definition l0unify_pair ::
  "jint \<Rightarrow> jbyte \<Rightarrow> jint \<Rightarrow> jint \<Rightarrow> jbyte \<Rightarrow> jint \<Rightarrow> l0MachineState \<Rightarrow> error + (bool \<times> l0MachineState)" where
  "l0unify_pair d1 t1 v1 d2 t2 v2 s =
     (if d1 \<noteq> d2 then
        if t1 = REF_tag then
          bindE (l0wr s d1 (cell REF_tag d2)) (\<lambda>s1. Inr (False, s1))
        else if t2 = REF_tag then
          bindE (l0wr s d2 (cell REF_tag d1)) (\<lambda>s1. Inr (False, s1))
        else
          bindE (l0rd s v1) (\<lambda>f_n1.
          bindE (l0rd s v2) (\<lambda>f_n2.
          let n1 = (ucast (f_n1 AND 0xFF) :: jbyte) in
          if f_n1 = f_n2 then
            bindE (l0push_args v1 v2 [1 ..< Suc (nat (sint n1))] s) (\<lambda>s1. Inr (False, s1))
          else Inr (True, s)))
      else Inr (False, s))"

definition l0unify_body :: "nat \<Rightarrow> l0MachineState \<Rightarrow> error + (bool \<times> l0MachineState)" where
  "l0unify_body n s =
     bindE (uPop s) (\<lambda>(x1, s1).
     bindE (l0_deref n s1 x1) (\<lambda>(d1, s2).
     let t1 = l0_derefTag s2; v1 = l0_derefVal s2 in
     bindE (uPop s2) (\<lambda>(x2, s3).
     bindE (l0_deref n s3 x2) (\<lambda>(d2, s4).
     let t2 = l0_derefTag s4; v2 = l0_derefVal s4 in
       l0unify_pair d1 t1 v1 d2 t2 v2 s4))))"

fun l0unify_loop :: "nat \<Rightarrow> l0MachineState \<Rightarrow> error + (bool \<times> l0MachineState)" where
  "l0unify_loop 0 s = Inl OutOfFuel"
| "l0unify_loop (Suc n) s =
     (if \<not> uEmpty s then
        bindE (l0unify_body n s) (\<lambda>(fail, s1).
          if fail then Inr (True, s1) else l0unify_loop n s1)
      else Inr (False, s))"

definition unify :: "nat \<Rightarrow> l0MachineState \<Rightarrow> jint \<Rightarrow> jint \<Rightarrow> error + (bool \<times> l0MachineState)" where
  "unify n s a1 a2 =
     bindE (uPush a1 s) (\<lambda>s1.
     bindE (uPush a2 s1) (\<lambda>s2.
     bindE (l0unify_loop n s2) (\<lambda>(fail, s3). Inr (\<not> fail, s3))))"

text \<open>
  The local variables of the L0 \<open>execute\<close>. Each turn of its decode loop first reads
  \<open>instruction = code[ip++]\<close> and \<open>Xi = (jint)code[ip++]\<close>; the \<open>switch\<close> has the six
  cases below and no default.
\<close>

record l0Locals =
  l0l_hp :: jint
  l0l_sp :: jint
  l0l_writeMode :: bool
  l0l_ip :: jint
  l0l_failed :: bool

definition l0_step :: "nat \<Rightarrow> jbyte list \<Rightarrow> l0Locals \<Rightarrow> l0MachineState \<Rightarrow> error + (l0Locals \<times> l0MachineState)" where
  "l0_step n code l0 s =
     bindE (code_at code (l0l_ip l0)) (\<lambda>instruction.
     bindE (code_at code (l0l_ip l0 + 1)) (\<lambda>b.
     let Xi = (scast b :: jint); l = l0\<lparr>l0l_ip := l0l_ip l0 + 2\<rparr> in
       if instruction = PUT_STRUC then
         bindE (jint_at code (l0l_ip l)) (\<lambda>f_n.
         bindE (l0wr s (l0l_hp l) (cell STR_tag (l0l_hp l + 1))) (\<lambda>s1.
         bindE (l0wr s1 (l0l_hp l + 1) f_n) (\<lambda>s2.
         bindE (l0rd s2 (l0l_hp l)) (\<lambda>v.
         bindE (l0wr s2 Xi v) (\<lambda>s3.
           Inr (l\<lparr>l0l_ip := l0l_ip l + 4, l0l_hp := l0l_hp l + 2\<rparr>, s3))))))
       else if instruction = SET_VAR then
         bindE (l0wr s (l0l_hp l) (cell REF_tag (l0l_hp l))) (\<lambda>s1.
         bindE (l0rd s1 (l0l_hp l)) (\<lambda>v.
         bindE (l0wr s1 Xi v) (\<lambda>s2.
           Inr (l\<lparr>l0l_hp := l0l_hp l + 1\<rparr>, s2))))
       else if instruction = SET_VAL then
         bindE (l0rd s Xi) (\<lambda>v.
         bindE (l0wr s (l0l_hp l) v) (\<lambda>s1.
           Inr (l\<lparr>l0l_hp := l0l_hp l + 1\<rparr>, s1)))
       else if instruction = GET_STRUC then
         bindE (jint_at code (l0l_ip l)) (\<lambda>f_n.
         bindE (l0_deref n s Xi) (\<lambda>(addr, s1).
         let tag = l0_derefTag s1; a = l0_derefVal s1; l1 = l\<lparr>l0l_ip := l0l_ip l + 4\<rparr> in
         if tag = REF_tag then
           bindE (l0wr s1 (l0l_hp l1) (cell STR_tag (l0l_hp l1 + 1))) (\<lambda>s2.
           bindE (l0wr s2 (l0l_hp l1 + 1) f_n) (\<lambda>s3.
           bindE (l0wr s3 addr (cell REF_tag (l0l_hp l1))) (\<lambda>s4.
             Inr (l1\<lparr>l0l_hp := l0l_hp l1 + 2, l0l_writeMode := True\<rparr>, s4))))
         else if tag = STR_tag then
           bindE (l0rd s1 a) (\<lambda>v.
             if v = f_n then Inr (l1\<lparr>l0l_sp := a + 1, l0l_writeMode := False\<rparr>, s1)
             else Inr (l1\<lparr>l0l_failed := True\<rparr>, s1))
         else Inr (l1, s1)))
       else if instruction = UNIFY_VAR then
         (if \<not> l0l_writeMode l then
            bindE (l0rd s (l0l_sp l)) (\<lambda>v.
            bindE (l0wr s Xi v) (\<lambda>s1.
              Inr (l\<lparr>l0l_sp := l0l_sp l + 1\<rparr>, s1)))
          else
            bindE (l0wr s (l0l_hp l) (cell REF_tag (l0l_hp l))) (\<lambda>s1.
            bindE (l0rd s1 (l0l_hp l)) (\<lambda>v.
            bindE (l0wr s1 Xi v) (\<lambda>s2.
              Inr (l\<lparr>l0l_hp := l0l_hp l + 1, l0l_sp := l0l_sp l + 1\<rparr>, s2)))))
       else if instruction = UNIFY_VAL then
         (if \<not> l0l_writeMode l then
            bindE (unify n s Xi (l0l_sp l)) (\<lambda>(r, s1).
              Inr (l\<lparr>l0l_failed := \<not> r, l0l_sp := l0l_sp l + 1\<rparr>, s1))
          else
            bindE (l0rd s Xi) (\<lambda>v.
            bindE (l0wr s (l0l_hp l) v) (\<lambda>s1.
              Inr (l\<lparr>l0l_hp := l0l_hp l + 1, l0l_sp := l0l_sp l + 1\<rparr>, s1))))
       else Inr (l, s)))"

fun l0_loop :: "nat \<Rightarrow> jbyte list \<Rightarrow> l0Locals \<Rightarrow> l0MachineState \<Rightarrow> error + (l0Locals \<times> l0MachineState)" where
  "l0_loop 0 code l s = Inl OutOfFuel"
| "l0_loop (Suc n) code l s =
     (if \<not> l0l_failed l \<and> sint (l0l_ip l) < int (length code) then
        bindE (l0_step n code l s) (\<lambda>(l1, s1). l0_loop n code l1 s1)
      else Inr (l, s))"

text \<open>
  The L0 \<open>execute\<close>. The global \<open>l0state\<close> is \<open>None\<close> while it still holds its initial
  value \<open>-1\<close>; then \<open>l0reset\<close> runs first, on fresh memory holding \<open>i\<close>, \<open>h\<close> and \<open>u\<close>.
\<close>

definition l0_execute :: "nat \<Rightarrow> l0MachineState option \<Rightarrow> jint \<Rightarrow> mem \<Rightarrow> mem \<Rightarrow> jbyte list \<Rightarrow> error + (bool \<times> l0MachineState)" where
  "l0_execute n l0state i h u code =
     (let s = (case l0state of None \<Rightarrow> l0reset i h u | Some s0 \<Rightarrow> s0);
          l = \<lparr> l0l_hp = l0_hp s, l0l_sp = l0_sp s, l0l_writeMode = l0_writeMode s, l0l_ip = 0,
                l0l_failed = False \<rparr>
      in bindE (l0_loop n code l (uClear s)) (\<lambda>(l1, s1).
           Inr (\<not> l0l_failed l1,
                s1\<lparr>l0_hp := l0l_hp l1, l0_sp := l0l_sp l1, l0_writeMode := l0l_writeMode l1\<rparr>)))"

text \<open>The inspection function \<open>getHeap\<close> of the L0 machine: \<open>l0state->heap[addr]\<close>.\<close>

definition l0_getHeap :: "l0MachineState \<Rightarrow> jint \<Rightarrow> error + jint" where
  "l0_getHeap s addr = rd L0_HEAP (l0_heap s) addr"

section \<open>The L3 interpreter kept out of the PDL region\<close>

text \<open>
  The PDL shares the data area with the registers, the heap and the stack; the functions
  meant to touch its cells are \<open>l3uPush\<close> and \<open>l3uPop\<close>. The definitions of this section
  are those of the L3 interpreter above, word for word, but for one thing: a cell that is
  read or written through an address (the operand of an instruction, the payload of a cell,
  \<open>hp\<close>, \<open>sp\<close>, \<open>ep\<close>, \<open>esp\<close>) has to lie below \<open>PDL_BASE\<close>, and the result is
  \<open>OutOfBounds\<close> when it does not. Pushing and popping are those of the interpreter, and so
  are \<open>CALL\<close> and \<open>PROCEED\<close>, which touch no cell. These definitions are not a machine of
  the library: they serve to say of a run of \<open>execute\<close> that it reached the PDL region by
  pushing and popping only, which is the case when \<open>g_execute\<close> returns on the same
  state, code and offset.
\<close>

definition g_rd :: "l3MachineState \<Rightarrow> jint \<Rightarrow> error + jint" where
  "g_rd s a = rd PDL_BASE (data s) a"

definition g_wr :: "l3MachineState \<Rightarrow> jint \<Rightarrow> jint \<Rightarrow> error + l3MachineState" where
  "g_wr s a v = bindE (wr PDL_BASE (data s) a v) (\<lambda>d. Inr (s\<lparr>data := d\<rparr>))"

definition g_deref :: "nat \<Rightarrow> l3MachineState \<Rightarrow> jint \<Rightarrow> error + (jint \<times> l3MachineState)" where
  "g_deref n s a =
     bindE (deref_on n PDL_BASE (data s) a) (\<lambda>(addr, t, v).
       Inr (addr, s\<lparr>derefTag := t, derefVal := v\<rparr>))"

definition g_unify_pair ::
  "jint \<Rightarrow> jbyte \<Rightarrow> jint \<Rightarrow> jint \<Rightarrow> jbyte \<Rightarrow> jint \<Rightarrow> l3MachineState \<Rightarrow> error + (bool \<times> l3MachineState)" where
  "g_unify_pair d1 t1 v1 d2 t2 v2 s =
     (if d1 \<noteq> d2 then
        if t1 = REF_tag then
          bindE (wr PDL_BASE (data s) d1 (cell REF_tag d2)) (\<lambda>d. Inr (False, s\<lparr>data := d\<rparr>))
        else if t2 = REF_tag then
          bindE (wr PDL_BASE (data s) d2 (cell REF_tag d1)) (\<lambda>d. Inr (False, s\<lparr>data := d\<rparr>))
        else
          bindE (rd PDL_BASE (data s) v1) (\<lambda>f_n1.
          bindE (rd PDL_BASE (data s) v2) (\<lambda>f_n2.
          let n1 = (ucast (f_n1 AND 0xFF) :: jbyte) in
          if f_n1 = f_n2 then
            bindE (l3push_args v1 v2 [1 ..< Suc (nat (sint n1))] s) (\<lambda>s1. Inr (False, s1))
          else Inr (True, s)))
      else Inr (False, s))"

definition g_unify_body :: "nat \<Rightarrow> l3MachineState \<Rightarrow> error + (bool \<times> l3MachineState)" where
  "g_unify_body n s =
     bindE (l3uPop s) (\<lambda>(x1, s1).
     bindE (g_deref n s1 x1) (\<lambda>(d1, s2).
     let t1 = derefTag s2; v1 = derefVal s2 in
     bindE (l3uPop s2) (\<lambda>(x2, s3).
     bindE (g_deref n s3 x2) (\<lambda>(d2, s4).
     let t2 = derefTag s4; v2 = derefVal s4 in
       g_unify_pair d1 t1 v1 d2 t2 v2 s4))))"

fun g_unify_loop :: "nat \<Rightarrow> l3MachineState \<Rightarrow> error + (bool \<times> l3MachineState)" where
  "g_unify_loop 0 s = Inl OutOfFuel"
| "g_unify_loop (Suc n) s =
     (if \<not> l3uEmpty s then
        bindE (g_unify_body n s) (\<lambda>(fail, s1).
          if fail then Inr (True, s1) else g_unify_loop n s1)
      else Inr (False, s))"

definition g_unify :: "nat \<Rightarrow> l3MachineState \<Rightarrow> jint \<Rightarrow> jint \<Rightarrow> error + (bool \<times> l3MachineState)" where
  "g_unify n s a1 a2 =
     bindE (l3uPush a1 s) (\<lambda>s1.
     bindE (l3uPush a2 s1) (\<lambda>s2.
     bindE (g_unify_loop n s2) (\<lambda>(fail, s3). Inr (\<not> fail, s3))))"

definition g_PUT_STRUC :: "jbyte list \<Rightarrow> l3Locals \<Rightarrow> l3MachineState \<Rightarrow> error + (l3Locals \<times> l3MachineState)" where
  "g_PUT_STRUC code l s =
     bindE (xi_addr code l) (\<lambda>xi.
     bindE (jint_at code (l_ip l + 3)) (\<lambda>f_n.
     bindE (g_wr s (l_hp l) (cell STR_tag (l_hp l + 1))) (\<lambda>s1.
     bindE (g_wr s1 (l_hp l + 1) f_n) (\<lambda>s2.
     bindE (g_rd s2 (l_hp l)) (\<lambda>v.
     bindE (g_wr s2 xi v) (\<lambda>s3.
       Inr (l\<lparr>l_hp := l_hp l + 2, l_ip := l_ip l + 7\<rparr>, s3)))))))"

definition g_SET_VAR :: "jbyte list \<Rightarrow> l3Locals \<Rightarrow> l3MachineState \<Rightarrow> error + (l3Locals \<times> l3MachineState)" where
  "g_SET_VAR code l s =
     bindE (xi_addr code l) (\<lambda>xi.
     bindE (g_wr s (l_hp l) (cell REF_tag (l_hp l))) (\<lambda>s1.
     bindE (g_rd s1 (l_hp l)) (\<lambda>v.
     bindE (g_wr s1 xi v) (\<lambda>s2.
       Inr (l\<lparr>l_hp := l_hp l + 1, l_ip := l_ip l + 3\<rparr>, s2)))))"

definition g_SET_VAL :: "jbyte list \<Rightarrow> l3Locals \<Rightarrow> l3MachineState \<Rightarrow> error + (l3Locals \<times> l3MachineState)" where
  "g_SET_VAL code l s =
     bindE (xi_addr code l) (\<lambda>xi.
     bindE (g_rd s xi) (\<lambda>v.
     bindE (g_wr s (l_hp l) v) (\<lambda>s1.
       Inr (l\<lparr>l_hp := l_hp l + 1, l_ip := l_ip l + 3\<rparr>, s1))))"

definition g_GET_STRUC :: "nat \<Rightarrow> jbyte list \<Rightarrow> l3Locals \<Rightarrow> l3MachineState \<Rightarrow> error + (l3Locals \<times> l3MachineState)" where
  "g_GET_STRUC n code l s =
     bindE (xi_addr code l) (\<lambda>xi.
     bindE (jint_at code (l_ip l + 3)) (\<lambda>f_n.
     bindE (g_deref n s xi) (\<lambda>(addr, s1).
     let tag = derefTag s1; a = derefVal s1 in
     if tag = REF_tag then
       bindE (g_wr s1 (l_hp l) (cell STR_tag (l_hp l + 1))) (\<lambda>s2.
       bindE (g_wr s2 (l_hp l + 1) f_n) (\<lambda>s3.
       bindE (g_wr s3 addr (cell REF_tag (l_hp l))) (\<lambda>s4.
         Inr (l\<lparr>l_hp := l_hp l + 2, l_writeMode := True, l_ip := l_ip l + 7\<rparr>, s4))))
     else if tag = STR_tag then
       bindE (g_rd s1 a) (\<lambda>v.
         if v = f_n then Inr (l\<lparr>l_sp := a + 1, l_writeMode := False, l_ip := l_ip l + 7\<rparr>, s1)
         else Inr (l\<lparr>l_failed := True, l_ip := l_ip l + 7\<rparr>, s1))
     else Inr (l\<lparr>l_ip := l_ip l + 7\<rparr>, s1))))"

definition g_UNIFY_VAR :: "jbyte list \<Rightarrow> l3Locals \<Rightarrow> l3MachineState \<Rightarrow> error + (l3Locals \<times> l3MachineState)" where
  "g_UNIFY_VAR code l s =
     bindE (xi_addr code l) (\<lambda>xi.
     if \<not> l_writeMode l then
       bindE (g_rd s (l_sp l)) (\<lambda>v.
       bindE (g_wr s xi v) (\<lambda>s1.
         Inr (l\<lparr>l_sp := l_sp l + 1, l_ip := l_ip l + 3\<rparr>, s1)))
     else
       bindE (g_wr s (l_hp l) (cell REF_tag (l_hp l))) (\<lambda>s1.
       bindE (g_rd s1 (l_hp l)) (\<lambda>v.
       bindE (g_wr s1 xi v) (\<lambda>s2.
         Inr (l\<lparr>l_hp := l_hp l + 1, l_sp := l_sp l + 1, l_ip := l_ip l + 3\<rparr>, s2)))))"

definition g_UNIFY_VAL :: "nat \<Rightarrow> jbyte list \<Rightarrow> l3Locals \<Rightarrow> l3MachineState \<Rightarrow> error + (l3Locals \<times> l3MachineState)" where
  "g_UNIFY_VAL n code l s =
     bindE (xi_addr code l) (\<lambda>xi.
     if \<not> l_writeMode l then
       bindE (g_unify n s xi (l_sp l)) (\<lambda>(r, s1).
         Inr (l\<lparr>l_failed := \<not> r, l_sp := l_sp l + 1, l_ip := l_ip l + 3\<rparr>, s1))
     else
       bindE (g_rd s xi) (\<lambda>v.
       bindE (g_wr s (l_hp l) v) (\<lambda>s1.
         Inr (l\<lparr>l_hp := l_hp l + 1, l_sp := l_sp l + 1, l_ip := l_ip l + 3\<rparr>, s1))))"

definition g_PUT_VAR :: "jbyte list \<Rightarrow> l3Locals \<Rightarrow> l3MachineState \<Rightarrow> error + (l3Locals \<times> l3MachineState)" where
  "g_PUT_VAR code l s =
     bindE (xi_addr code l) (\<lambda>xi.
     bindE (code_at code (l_ip l + 3)) (\<lambda>ai.
     bindE (g_wr s (l_hp l) (cell REF_tag (l_hp l))) (\<lambda>s1.
     bindE (g_rd s1 (l_hp l)) (\<lambda>v.
     bindE (g_wr s1 xi v) (\<lambda>s2.
     bindE (g_rd s2 (l_hp l)) (\<lambda>w.
     bindE (g_wr s2 (scast ai) w) (\<lambda>s3.
       Inr (l\<lparr>l_hp := l_hp l + 1, l_ip := l_ip l + 4\<rparr>, s3))))))))"

definition g_PUT_VAL :: "jbyte list \<Rightarrow> l3Locals \<Rightarrow> l3MachineState \<Rightarrow> error + (l3Locals \<times> l3MachineState)" where
  "g_PUT_VAL code l s =
     bindE (xi_addr code l) (\<lambda>xi.
     bindE (code_at code (l_ip l + 3)) (\<lambda>ai.
     bindE (g_rd s xi) (\<lambda>v.
     bindE (g_wr s (scast ai) v) (\<lambda>s1.
       Inr (l\<lparr>l_ip := l_ip l + 4\<rparr>, s1)))))"

definition g_GET_VAR :: "jbyte list \<Rightarrow> l3Locals \<Rightarrow> l3MachineState \<Rightarrow> error + (l3Locals \<times> l3MachineState)" where
  "g_GET_VAR code l s =
     bindE (xi_addr code l) (\<lambda>xi.
     bindE (code_at code (l_ip l + 3)) (\<lambda>ai.
     bindE (g_rd s (scast ai)) (\<lambda>v.
     bindE (g_wr s xi v) (\<lambda>s1.
       Inr (l\<lparr>l_ip := l_ip l + 4\<rparr>, s1)))))"

definition g_GET_VAL :: "nat \<Rightarrow> jbyte list \<Rightarrow> l3Locals \<Rightarrow> l3MachineState \<Rightarrow> error + (l3Locals \<times> l3MachineState)" where
  "g_GET_VAL n code l s =
     bindE (xi_addr code l) (\<lambda>xi.
     bindE (code_at code (l_ip l + 3)) (\<lambda>ai.
     bindE (g_unify n s xi (scast ai)) (\<lambda>(r, s1).
       Inr (l\<lparr>l_failed := \<not> r, l_ip := l_ip l + 4\<rparr>, s1))))"

definition g_ALLOCATE :: "jbyte list \<Rightarrow> l3Locals \<Rightarrow> l3MachineState \<Rightarrow> error + (l3Locals \<times> l3MachineState)" where
  "g_ALLOCATE code l s =
     bindE (code_at code (l_ip l + 1)) (\<lambda>b.
     let n = (scast b :: jint) in
     bindE (g_wr s (l_esp l) (l_ep l)) (\<lambda>s1.
     bindE (g_wr s1 (l_esp l + 1) (l_cp l)) (\<lambda>s2.
     bindE (g_wr s2 (l_esp l + 2) n) (\<lambda>s3.
       Inr (l\<lparr>l_ep := l_esp l, l_esp := l_esp l + n + 3, l_ip := l_ip l + 2\<rparr>, s3)))))"

definition g_DEALLOCATE :: "l3Locals \<Rightarrow> l3MachineState \<Rightarrow> error + (l3Locals \<times> l3MachineState)" where
  "g_DEALLOCATE l s =
     bindE (g_rd s (l_ep l)) (\<lambda>ep1.
     bindE (g_rd s (ep1 + 1)) (\<lambda>ip1.
       Inr (l\<lparr>l_esp := l_ep l, l_ep := ep1, l_ip := ip1\<rparr>, s)))"

definition g_step :: "nat \<Rightarrow> jbyte list \<Rightarrow> l3Locals \<Rightarrow> l3MachineState \<Rightarrow> error + (l3Locals \<times> l3MachineState)" where
  "g_step n code l s =
     bindE (code_at code (l_ip l)) (\<lambda>instruction.
       if instruction = PUT_STRUC then g_PUT_STRUC code l s
       else if instruction = SET_VAR then g_SET_VAR code l s
       else if instruction = SET_VAL then g_SET_VAL code l s
       else if instruction = GET_STRUC then g_GET_STRUC n code l s
       else if instruction = UNIFY_VAR then g_UNIFY_VAR code l s
       else if instruction = UNIFY_VAL then g_UNIFY_VAL n code l s
       else if instruction = PUT_VAR then g_PUT_VAR code l s
       else if instruction = PUT_VAL then g_PUT_VAL code l s
       else if instruction = GET_VAR then g_GET_VAR code l s
       else if instruction = GET_VAL then g_GET_VAL n code l s
       else if instruction = CALL then l3_CALL code l s
       else if instruction = PROCEED then l3_PROCEED l s
       else if instruction = ALLOCATE then g_ALLOCATE code l s
       else if instruction = DEALLOCATE then g_DEALLOCATE l s
       else Inr (l\<lparr>l_failed := True\<rparr>, s))"

fun g_loop :: "nat \<Rightarrow> jbyte list \<Rightarrow> l3Locals \<Rightarrow> l3MachineState \<Rightarrow> error + (l3Locals \<times> l3MachineState)" where
  "g_loop 0 code l s = Inl OutOfFuel"
| "g_loop (Suc n) code l s =
     (if \<not> l_failed l \<and> sint (l_ip l) < int (length code) then
        bindE (g_step n code l s) (\<lambda>(l1, s1). g_loop n code l1 s1)
      else Inr (l, s))"

definition g_execute :: "nat \<Rightarrow> l3MachineState \<Rightarrow> jbyte list \<Rightarrow> jint \<Rightarrow> error + (bool \<times> l3MachineState)" where
  "g_execute n s code offset =
     (case l3_entry s code offset of (l0, s0) \<Rightarrow>
        bindE (g_loop n code l0 s0) (\<lambda>(l, s1).
          Inr (\<not> l_failed l,
               s1\<lparr>hp := l_hp l, sp := l_sp l, cp := l_cp l, ep := l_ep l, esp := l_esp l,
                  writeMode := l_writeMode l\<rparr>)))"

section \<open>Notions used to state the properties\<close>

text \<open>
  Following the chain of \<open>REF\<close> cells, as the specification words it: from address \<open>a\<close>,
  stop at the current address when its cell is not \<open>REF\<close>, or is \<open>REF\<close> with its own
  address as payload; otherwise go on from the payload. \<open>derefs_to sz d a b\<close> says that
  the walk from \<open>a\<close> stays inside the \<open>sz\<close> cells of \<open>d\<close> and stops at \<open>b\<close>.
\<close>

inductive derefs_to :: "nat \<Rightarrow> mem \<Rightarrow> jint \<Rightarrow> jint \<Rightarrow> bool" for sz :: nat and d :: mem where
  stop: "unat a < sz \<Longrightarrow> tag_of (d a) \<noteq> REF_tag \<or> val_of (d a) = a \<Longrightarrow> derefs_to sz d a a"
| hop: "unat a < sz \<Longrightarrow> tag_of (d a) = REF_tag \<Longrightarrow> val_of (d a) \<noteq> a \<Longrightarrow>
        derefs_to sz d (val_of (d a)) b \<Longrightarrow> derefs_to sz d a b"

code_pred derefs_to .

text \<open>\<open>l3deref\<close> returns from address \<open>a\<close> in state \<open>s\<close>: some amount of fuel gives a result.\<close>

definition l3deref_returns :: "l3MachineState \<Rightarrow> jint \<Rightarrow> bool" where
  "l3deref_returns s a \<longleftrightarrow> (\<exists>n r. l3deref n s a = Inr r)"

text \<open>
  \<open>avoids sz d x a\<close>: the walk along the \<open>REF\<close> cells from \<open>a\<close> stays inside the \<open>sz\<close>
  cells of \<open>d\<close> and stops without coming to the address \<open>x\<close>.
\<close>

inductive avoids :: "nat \<Rightarrow> mem \<Rightarrow> jint \<Rightarrow> jint \<Rightarrow> bool" for sz :: nat and d :: mem and x :: jint where
  stop: "unat a < sz \<Longrightarrow> a \<noteq> x \<Longrightarrow> tag_of (d a) \<noteq> REF_tag \<or> val_of (d a) = a \<Longrightarrow> avoids sz d x a"
| hop: "unat a < sz \<Longrightarrow> a \<noteq> x \<Longrightarrow> tag_of (d a) = REF_tag \<Longrightarrow> val_of (d a) \<noteq> a \<Longrightarrow>
        avoids sz d x (val_of (d a)) \<Longrightarrow> avoids sz d x a"

code_pred avoids .

text \<open>
  Storing the cell \<open>c\<close> at address \<open>x\<close> cannot close a chain of \<open>REF\<close> cells when \<open>c\<close> is
  not a \<open>REF\<close> cell, or is \<open>REF\<close> to \<open>x\<close> itself, or when the walk from its payload stops
  without coming to \<open>x\<close>.
\<close>

definition safe_cell :: "mem \<Rightarrow> jint \<Rightarrow> jint \<Rightarrow> bool" where
  "safe_cell d x c \<longleftrightarrow> tag_of c \<noteq> REF_tag \<or> val_of c = x \<or> avoids TOP d x (val_of c)"

text \<open>Every walk along \<open>REF\<close> cells that starts in the data area stops in it.\<close>

definition chains_end :: "mem \<Rightarrow> bool" where
  "chains_end d \<longleftrightarrow> (\<forall>a. unat a < TOP \<longrightarrow> (\<exists>b. derefs_to TOP d a b))"

text \<open>
  A careful turn of the decode loop. The instructions that store a cell taken from
  elsewhere do it with a safe cell: \<open>SET_VAL\<close> and \<open>UNIFY_VAL\<close> in write mode copy
  \<open>data[xi]\<close> to \<open>hp\<close>, \<open>UNIFY_VAR\<close> in read mode copies \<open>data[sp]\<close> to \<open>xi\<close>, \<open>PUT_VAL\<close> copies
  \<open>data[xi]\<close> to \<open>ai\<close> and \<open>GET_VAR\<close> copies \<open>data[ai]\<close> to \<open>xi\<close>; the functor word that
  \<open>PUT_STRUC\<close> and \<open>GET_STRUC\<close> store has not the tag byte \<open>REF\<close>; and the values of \<open>ep\<close>
  and \<open>cp\<close> that \<open>ALLOCATE\<close> stores have not the tag byte \<open>REF\<close>. Nothing is asked of the
  other instructions, nor of what \<open>l3unify\<close> stores.
\<close>

definition careful :: "jbyte list \<Rightarrow> l3Locals \<Rightarrow> l3MachineState \<Rightarrow> bool" where
  "careful code l s =
     (case code_at code (l_ip l) of Inl e \<Rightarrow> True | Inr instruction \<Rightarrow>
        if instruction = PUT_STRUC \<or> instruction = GET_STRUC then
          (case jint_at code (l_ip l + 3) of Inl e \<Rightarrow> True | Inr f_n \<Rightarrow> tag_of f_n \<noteq> REF_tag)
        else if instruction = SET_VAL \<or> (instruction = UNIFY_VAL \<and> l_writeMode l) then
          (case xi_addr code l of Inl e \<Rightarrow> True | Inr xi \<Rightarrow> safe_cell (data s) (l_hp l) (data s xi))
        else if instruction = UNIFY_VAR \<and> \<not> l_writeMode l then
          (case xi_addr code l of Inl e \<Rightarrow> True | Inr xi \<Rightarrow> safe_cell (data s) xi (data s (l_sp l)))
        else if instruction = PUT_VAL then
          (case xi_addr code l of Inl e \<Rightarrow> True | Inr xi \<Rightarrow>
           case code_at code (l_ip l + 3) of Inl e \<Rightarrow> True | Inr ai \<Rightarrow>
             safe_cell (data s) (scast ai) (data s xi))
        else if instruction = GET_VAR then
          (case xi_addr code l of Inl e \<Rightarrow> True | Inr xi \<Rightarrow>
           case code_at code (l_ip l + 3) of Inl e \<Rightarrow> True | Inr ai \<Rightarrow>
             safe_cell (data s) xi (data s (scast ai)))
        else if instruction = ALLOCATE then tag_of (l_ep l) \<noteq> REF_tag \<and> tag_of (l_cp l) \<noteq> REF_tag
        else True)"

text \<open>
  The configurations of the decode loop (its local variables and the machine state) that
  are reached from reset: \<open>execute\<close> is entered on the reset state, on any code and
  offset; a turn of the loop is taken, when the loop condition holds and the turn is
  careful; \<open>execute\<close> returns (the local variables are written back to the state) and is
  entered again, on any code and offset.
\<close>

inductive reaches :: "l3Locals \<Rightarrow> l3MachineState \<Rightarrow> bool" where
  first: "reaches (fst (l3_entry nativeReset code offset)) (snd (l3_entry nativeReset code offset))"
| turn: "reaches l s \<Longrightarrow> \<not> l_failed l \<Longrightarrow> sint (l_ip l) < int (length code) \<Longrightarrow> careful code l s \<Longrightarrow>
         l3_step n code l s = Inr (l', s') \<Longrightarrow> reaches l' s'"
| again: "reaches l s \<Longrightarrow>
          s' = s\<lparr>hp := l_hp l, sp := l_sp l, cp := l_cp l, ep := l_ep l, esp := l_esp l,
                 writeMode := l_writeMode l\<rparr> \<Longrightarrow>
          reaches (fst (l3_entry s' code offset)) (snd (l3_entry s' code offset))"

text \<open>
  The data area \<open>d\<close> agrees with that of the state \<open>s\<close> below \<open>PDL_BASE\<close> and on the entries
  of the PDL, which are the cells from \<open>up\<close> to \<open>TOP\<close>; outside the set \<open>D\<close> it agrees
  everywhere.
\<close>

definition agree :: "jint set \<Rightarrow> l3MachineState \<Rightarrow> mem \<Rightarrow> bool" where
  "agree D s d \<longleftrightarrow>
     (\<forall>a. a \<notin> D \<or> unat a < PDL_BASE \<or> (unat (up s) \<le> unat a \<and> unat a < TOP) \<longrightarrow> d a = data s a)"

text \<open>
  A result of the interpreter kept out of the PDL region is matched by a result of the
  interpreter: the same value, and the same state but for a data area that agrees.
\<close>

definition sim :: "jint set \<Rightarrow> error + ('a \<times> l3MachineState) \<Rightarrow> error + ('a \<times> l3MachineState) \<Rightarrow> bool" where
  "sim D m m' \<longleftrightarrow> (\<forall>x s'. m = Inr (x, s') \<longrightarrow> (\<exists>d'. m' = Inr (x, s'\<lparr>data := d'\<rparr>) \<and> agree D s' d'))"

definition simS :: "jint set \<Rightarrow> error + l3MachineState \<Rightarrow> error + l3MachineState \<Rightarrow> bool" where
  "simS D m m' \<longleftrightarrow> (\<forall>s'. m = Inr s' \<longrightarrow> (\<exists>d'. m' = Inr (s'\<lparr>data := d'\<rparr>) \<and> agree D s' d'))"

text \<open>The \<open>jboolean\<close> that \<open>execute\<close> returns, without the state it leaves.\<close>

definition answer :: "error + (bool \<times> 'a) \<Rightarrow> error + bool" where
  "answer r = (case r of Inl e \<Rightarrow> Inl e | Inr (b, s) \<Rightarrow> Inr b)"

section \<open>Programs and states used as examples\<close>

text \<open>
  A caller that allocates a frame, calls the clause at offset 8 and deallocates; the
  clause at offset 8 allocates a frame of its own and deallocates it.
\<close>

definition nested_frames :: "jbyte list" where
  "nested_frames = [ALLOCATE, 0, CALL, 8, 0, 0, 0, DEALLOCATE, ALLOCATE, 0, DEALLOCATE]"

text \<open>An L2 machine straight after its reset, on a heap whose cells happen to be 0.\<close>

definition l2_zero_machine :: l2Machine where
  "l2_zero_machine = \<lparr> l2state = l2_reset_state (\<lambda>i. 0), l2_derefTag = 0, l2_derefVal = 0 \<rparr>"

text \<open>
  A program of three instructions on the registers \<open>X0\<close> and \<open>A1\<close>, and the state that
  \<open>execute\<close> leaves when it is run from reset: cell 1 is \<open>REF\<close> to 10 and cell 10 is
  \<open>REF\<close> to 1.
\<close>

definition cycle_program :: "jbyte list" where
  "cycle_program = [SET_VAR, REG_ADDR, 0, GET_VAL, REG_ADDR, 0, 1, PUT_VAL, REG_ADDR, 0, 1]"

definition cycle_state :: l3MachineState where
  "cycle_state =
     nativeReset\<lparr>cp := 11, hp := 11, derefTag := REF_tag, derefVal := 10,
       data := (data nativeReset)(0 := cell REF_tag 10, 21009 := 0, 21008 := 1,
                                  10 := cell REF_tag 1, 1 := cell REF_tag 10)\<rparr>"

text \<open>
  A data area holding two structures of the functor word \<open>0x180\<close> (functor 1, arity byte
  \<open>0x80\<close>, that is 128 arguments): \<open>X0\<close> points at the functor cell 20 and \<open>X1\<close> at the
  functor cell 200. Their first arguments (cells 21 and 201) are the constants \<open>0x200\<close> and
  \<open>0x300\<close> of arity 0, at 400 and 402; their other 127 arguments are unbound variables.
\<close>

definition arity128_heap :: mem where
  "arity128_heap a =
     (if a = 0 then cell STR_tag 20 else if a = 1 then cell STR_tag 200
      else if a = 20 \<or> a = 200 then 0x180
      else if a = 21 then cell STR_tag 400 else if a = 201 then cell STR_tag 402
      else if a = 400 then 0x200 else if a = 402 then 0x300
      else if (22 \<le> a \<and> a \<le> 148) \<or> (202 \<le> a \<and> a \<le> 328) then cell REF_tag a
      else 0)"

definition arity128_state :: l3MachineState where
  "arity128_state = nativeReset\<lparr>data := arity128_heap, hp := 404\<rparr>"

text \<open>Fresh memory as \<open>malloc\<close> may return it: every cell holds \<open>0xABABABAB\<close>.\<close>

definition stale_memory :: mem where
  "stale_memory a = 0xABABABAB"


text \<open>
  Byte code that builds the structures \<open>f(0, 0, c)\<close> with its functor cell at 15 and
  \<open>f(d, d, d)\<close> with its functor cell at 20, and leaves them in \<open>X1\<close> and \<open>X2\<close> (functor
  words \<open>0x103\<close> for \<open>f/3\<close>, \<open>0x200\<close> for \<open>c\<close>, \<open>0x300\<close> for \<open>d\<close>; the first two arguments
  of the first structure are copies of the zero cell in \<open>X9\<close>).
\<close>

definition two_structures :: "jbyte list" where
  "two_structures =
     [PUT_STRUC, REG_ADDR, 3, 0, 2, 0, 0,
      PUT_STRUC, REG_ADDR, 4, 0, 3, 0, 0,
      PUT_STRUC, REG_ADDR, 1, 3, 1, 0, 0,
      SET_VAL, REG_ADDR, 9, SET_VAL, REG_ADDR, 9, SET_VAL, REG_ADDR, 3,
      PUT_STRUC, REG_ADDR, 2, 3, 1, 0, 0,
      SET_VAL, REG_ADDR, 4, SET_VAL, REG_ADDR, 4, SET_VAL, REG_ADDR, 4]"

text \<open>
  Two programs that build the two structures and unify them, one by \<open>GET_VAL X1, A2\<close> and
  one by \<open>GET_VAL X2, A1\<close>, and the states that \<open>execute\<close> leaves when they are run from
  reset. Both unifications fail on the third arguments, with the pairs of the first two
  arguments still on the PDL (\<open>up = 21006\<close>). The two states have the same registers, heap
  and stack; they differ in the cells of the PDL region (the pending entries are 17, 22,
  16, 21 in the first and 22, 17, 21, 16 in the second) and in the value of the last
  dereference.
\<close>

definition pending_program :: "jbyte list" where
  "pending_program = two_structures @ [GET_VAL, REG_ADDR, 1, 2]"

definition pending_program_sym :: "jbyte list" where
  "pending_program_sym = two_structures @ [GET_VAL, REG_ADDR, 2, 1]"

definition pending_state :: l3MachineState where
  "pending_state =
     nativeReset\<lparr>cp := 50, hp := 24, up := 21006, derefTag := STR_tag, derefVal := 13,
       data := (data nativeReset)(10 := cell STR_tag 11, 11 := 0x200, 3 := cell STR_tag 11,
          12 := cell STR_tag 13, 13 := 0x300, 4 := cell STR_tag 13,
          14 := cell STR_tag 15, 15 := 0x103, 1 := cell STR_tag 15,
          16 := 0, 17 := 0, 18 := cell STR_tag 11,
          19 := cell STR_tag 20, 20 := 0x103, 2 := cell STR_tag 20,
          21 := cell STR_tag 13, 22 := cell STR_tag 13, 23 := cell STR_tag 13,
          21009 := 21, 21008 := 16, 21007 := 22, 21006 := 17, 21005 := 23, 21004 := 18)\<rparr>"

definition pending_state_sym :: l3MachineState where
  "pending_state_sym =
     pending_state\<lparr>derefVal := 11,
       data := (data pending_state)(21009 := 16, 21008 := 21, 21007 := 17, 21006 := 22,
                                    21005 := 18, 21004 := 23)\<rparr>"

text \<open>
  A program that reads a cell of the PDL region through an address: it stores the functor
  word \<open>0x0100520F\<close> (a \<open>REF\<close> cell to 21007 when read as a cell) at 25, copies cell 25
  to \<open>X9\<close>, and unifies \<open>X9\<close> with \<open>X5\<close>.
\<close>

definition reader_program :: "jbyte list" where
  "reader_program =
     [PUT_STRUC, REG_ADDR, 8, 0x0F, 0x52, 0x00, 0x01,
      GET_VAR, REG_ADDR, 9, 25,
      GET_VAL, REG_ADDR, 9, 5]"

text \<open>
  The invariant of the loop of \<open>l3unify\<close> on the PDL pointer: it is at most \<open>TOP\<close> and an
  even number of cells away from it (\<open>TOP\<close> is even).
\<close>

definition pdl_inv :: "l3MachineState \<Rightarrow> bool" where
  "pdl_inv s \<longleftrightarrow> unat (up s) \<le> TOP \<and> even (unat (up s))"

section \<open>Basic facts\<close>

lemma bindE_Inl [simp]: "bindE (Inl e) f = Inl e"
  by (simp add: bindE_def)

lemma bindE_Inr [simp]: "bindE (Inr x) f = f x"
  by (simp add: bindE_def)

lemma bindE_eq_Inr: "bindE m f = Inr y \<longleftrightarrow> (\<exists>x. m = Inr x \<and> f x = Inr y)"
  by (cases m) simp_all

text \<open>Evaluation must settle the first argument of \<open>bindE\<close> before it looks at the rest.\<close>

lemma bindE_cong: "m = m' \<Longrightarrow> bindE m f = bindE m' f"
  by simp

lemma TOP_val: "TOP = 21010"
  by (simp add: TOP_def REG_SIZE_def HEAP_SIZE_def STACK_SIZE_def PDL_SIZE_def)

text \<open>The bound check of \<open>rd\<close> and \<open>wr\<close> is the signed one of the C index.\<close>

lemma in_range_signed:
  fixes a :: jint
  assumes "n \<le> 2 ^ 31"
  shows "unat a < n \<longleftrightarrow> 0 \<le> sint a \<and> sint a < int n"
proof (cases "uint a < 2 ^ 31")
  case True
  have "0 \<le> uint a" by simp
  then have "- 2147483648 \<le> uint a" by linarith
  with True have "sint a = uint a"
    using signed_take_bit_int_eq_self[of 31 "uint a"] by (simp add: sint_uint)
  then show ?thesis 
    by (metis of_nat_less_iff of_nat_unat uint_nonnegative)
next
  case False
  then have lt: "sint a < uint a"
    using signed_take_bit_int_less_self_iff[of 31 "uint a"] by (simp add: sint_uint)
  have "\<not> 0 \<le> sint a"
  proof
    assume nn: "0 \<le> sint a"
    have "sint a < 2 ^ 32" using sint_lt[of a] by simp
    with nn have "take_bit 32 (sint a) = sint a" by (simp add: take_bit_int_eq_self)
    with uint_sint[of a] have "uint a = sint a" by simp
    with lt show False by simp
  qed
  moreover from False have "2 ^ 31 \<le> unat a"
    by (simp add: leI nat_int_comparison(2))
  ultimately show ?thesis using assms by simp
qed

lemma mask24: "(0xFFFFFF :: jint) = mask 24"
  by (simp add: mask_eq_exp_minus_1)

lemma val_of_cell: "val_of (cell t a) = a AND 0xFFFFFF"
  unfolding val_of_def cell_def mask24
  by (rule bit_word_eqI) (auto simp add: bit_simps)

lemma tag_of_cell_REF: "tag_of (cell REF_tag a) = REF_tag"
  unfolding tag_of_def cell_def mask24 REF_tag_def
  by (rule bit_word_eqI) (auto simp add: bit_simps)

lemma tag_of_cell_STR: "tag_of (cell STR_tag a) = STR_tag"
  unfolding tag_of_def cell_def mask24 STR_tag_def
  by (rule bit_word_eqI) (auto simp add: bit_simps)

text \<open>Unfolding the loops at a numeral amount of fuel.\<close>

lemma deref_loop_numeral:
  "deref_loop (numeral k) sz d addr t v =
     (if t = REF_tag then
        bindE (rd sz d v) (\<lambda>tmp.
          if v = val_of tmp then Inr (v, tag_of tmp, v)
          else deref_loop (pred_numeral k) sz d v (tag_of tmp) (val_of tmp))
      else Inr (addr, t, v))"
  by (simp add: numeral_eq_Suc)

lemma l3unify_loop_numeral:
  "l3unify_loop (numeral k) s =
     (if \<not> l3uEmpty s then
        bindE (l3unify_body (pred_numeral k) s) (\<lambda>(fail, s1).
          if fail then Inr (True, s1) else l3unify_loop (pred_numeral k) s1)
      else Inr (False, s))"
  by (simp add: numeral_eq_Suc)

lemma l3_loop_numeral:
  "l3_loop (numeral k) code l s =
     (if \<not> l_failed l \<and> sint (l_ip l) < int (length code) then
        bindE (l3_step (pred_numeral k) code l s) (\<lambda>(l1, s1). l3_loop (pred_numeral k) code l1 s1)
      else Inr (l, s))"
  by (simp add: numeral_eq_Suc)

lemma l0_loop_numeral:
  "l0_loop (numeral k) code l s =
     (if \<not> l0l_failed l \<and> sint (l0l_ip l) < int (length code) then
        bindE (l0_step (pred_numeral k) code l s) (\<lambda>(l1, s1). l0_loop (pred_numeral k) code l1 s1)
      else Inr (l, s))"
  by (simp add: numeral_eq_Suc)

lemmas opcode_defs = PUT_STRUC_def SET_VAR_def SET_VAL_def GET_STRUC_def UNIFY_VAR_def UNIFY_VAL_def
  PUT_VAR_def PUT_VAL_def GET_VAR_def GET_VAL_def CALL_def PROCEED_def ALLOCATE_def DEALLOCATE_def

lemma l3rd_simps: "l3rd s a = (if unat a < TOP then Inr (data s a) else Inl OutOfBounds)"
  by (simp add: l3rd_def rd_def)

lemma l3wr_simps:
  "l3wr s a v = (if unat a < TOP then Inr (s\<lparr>data := (data s)(a := v)\<rparr>) else Inl OutOfBounds)"
  by (simp add: l3wr_def wr_def)

lemmas l3_instr_defs = l3_PUT_STRUC_def l3_SET_VAR_def l3_SET_VAL_def l3_GET_STRUC_def l3_UNIFY_VAR_def
  l3_UNIFY_VAL_def l3_PUT_VAR_def l3_PUT_VAL_def l3_GET_VAR_def l3_GET_VAL_def l3_CALL_def l3_PROCEED_def
  l3_ALLOCATE_def l3_DEALLOCATE_def

lemmas l3_eval = execute_def l3_entry_def nativeReset_def l3uClear_def TOP_val REG_SIZE_def HEAP_SIZE_def
  l3_loop_numeral l3unify_loop_numeral deref_loop_numeral
  l3_step_def code_at_def opcode_defs xi_addr_def REG_ADDR_def STACK_ADDR_def jint_at_def l3_instr_defs
  l3deref_def deref_on_def l3rd_simps l3wr_simps rd_def wr_def REF_tag_def STR_tag_def tag_of_def
  val_of_def cell_def Let_def l3unify_def l3unify_body_def l3unify_pair_def l3uPush_def l3uPop_def
  l3uEmpty_def

lemma unat_plus1: "unat (a::jint) + 1 < TOP \<Longrightarrow> unat (a + 1) = unat a + 1"
  by (simp add: TOP_val unat_word_ariths)

lemma unat_plus2: "unat (a::jint) + 2 < TOP \<Longrightarrow> unat (a + 2) = unat a + 2"
  by (simp add: TOP_val unat_word_ariths)

lemma sint_eq_unat:
  fixes a :: jint
  assumes "unat a < 2 ^ 31"
  shows "sint a = int (unat a)"
proof -
  from assms have "int (unat a) < int (2 ^ 31)" by (simp only: of_nat_less_iff)
  then have "uint a < 2 ^ 31" by simp
  moreover have "0 \<le> uint a" by simp
  then have "- 2147483648 \<le> uint a" by linarith
  ultimately have "sint a = uint a"
    using signed_take_bit_int_eq_self[of 31 "uint a"] by (simp add: sint_uint)
  then show ?thesis by simp
qed

lemma l3wr_eq_Inr: "l3wr s a v = Inr s' \<longleftrightarrow> unat a < TOP \<and> s' = s\<lparr>data := (data s)(a := v)\<rparr>"
  by (auto simp: l3wr_simps)

lemma l3deref_up: "l3deref n s a = Inr (b, s') \<Longrightarrow> up s' = up s \<and> data s' = data s"
  by (auto simp: l3deref_def bindE_eq_Inr)

lemma unat_succ_TOP: "unat (a::jint) < TOP \<Longrightarrow> unat (a + 1) = unat a + 1"
  by (simp add: TOP_val unat_word_ariths)

section \<open>Dereferencing follows the chain of REF cells\<close>

lemma derefs_to_in_range: "derefs_to sz d a b \<Longrightarrow> unat a < sz"
  by (erule derefs_to.cases) simp_all

lemma derefs_to_self: "derefs_to sz d a b \<Longrightarrow> val_of (d a) = a \<Longrightarrow> b = a"
  by (erule derefs_to.cases) simp_all

lemma derefs_to_terminal: "derefs_to sz d a b \<Longrightarrow> derefs_to sz d b b"
  by (induction rule: derefs_to.induct) (auto intro: derefs_to.stop)

lemma deref_loop_sound:
  "deref_loop n sz d addr (tag_of (d addr)) (val_of (d addr)) = Inr (b, t, v) \<Longrightarrow> unat addr < sz \<Longrightarrow>
   derefs_to sz d addr b \<and> t = tag_of (d b) \<and> v = val_of (d b)"
proof (induction n arbitrary: addr)
  case 0
  then show ?case by simp
next
  case (Suc n)
  show ?case
  proof (cases "tag_of (d addr) = REF_tag")
    case False
    with Suc.prems show ?thesis by (auto intro: derefs_to.stop)
  next
    case True
    let ?v = "val_of (d addr)"
    from Suc.prems(1) True have r: "unat ?v < sz"
      by (auto simp: rd_def split: if_splits)
    show ?thesis
    proof (cases "?v = val_of (d ?v)")
      case self: True
      from Suc.prems(1) True r self have res: "b = ?v" "t = tag_of (d ?v)" "v = ?v"
        by (auto simp: rd_def)
      have "derefs_to sz d ?v ?v" using r self by (auto intro: derefs_to.stop)
      then have "derefs_to sz d addr ?v"
        using True Suc.prems(2) by (cases "?v = addr") (auto intro: derefs_to.hop)
      with res self show ?thesis by simp
    next
      case nself: False
      from Suc.prems(1) True r nself
      have rec: "deref_loop n sz d ?v (tag_of (d ?v)) (val_of (d ?v)) = Inr (b, t, v)"
        by (auto simp: rd_def)
      from Suc.IH[OF rec r] have ih: "derefs_to sz d ?v b" "t = tag_of (d b)" "v = val_of (d b)"
        by simp_all
      have "?v \<noteq> addr" using nself by auto
      with ih True Suc.prems(2) show ?thesis by (auto intro: derefs_to.hop)
    qed
  qed
qed

lemma deref_loop_complete:
  "derefs_to sz d a b \<Longrightarrow>
   \<exists>n. deref_loop n sz d a (tag_of (d a)) (val_of (d a)) = Inr (b, tag_of (d b), val_of (d b))"
proof (induction rule: derefs_to.induct)
  case (stop a)
  then have "deref_loop (Suc 0) sz d a (tag_of (d a)) (val_of (d a)) = Inr (a, tag_of (d a), val_of (d a))"
    by (auto simp: rd_def)
  then show ?case by blast
next
  case (hop a b)
  let ?v = "val_of (d a)"
  from hop.IH obtain n where n: "deref_loop n sz d ?v (tag_of (d ?v)) (val_of (d ?v)) = Inr (b, tag_of (d b), val_of (d b))"
    by blast
  have r: "unat ?v < sz" using hop.hyps(4) by (rule derefs_to_in_range)
  have "deref_loop (Suc n) sz d a (tag_of (d a)) ?v = Inr (b, tag_of (d b), val_of (d b))"
  proof (cases "?v = val_of (d ?v)")
    case True
    then have "b = ?v" using derefs_to_self[OF hop.hyps(4)] by simp
    with True hop.hyps(2) r show ?thesis by (simp add: rd_def)
  next
    case False
    with hop.hyps(2) r n show ?thesis by (simp add: rd_def)
  qed
  then show ?case by blast
qed

lemma deref_on_iff:
  "(\<exists>n. deref_on n sz d a = Inr (b, t, v)) \<longleftrightarrow>
   derefs_to sz d a b \<and> t = tag_of (d b) \<and> v = val_of (d b)"
proof
  assume "\<exists>n. deref_on n sz d a = Inr (b, t, v)"
  then obtain n where n: "deref_on n sz d a = Inr (b, t, v)" by blast
  then have r: "unat a < sz" by (auto simp: deref_on_def rd_def split: if_splits)
  with n have "deref_loop n sz d a (tag_of (d a)) (val_of (d a)) = Inr (b, t, v)"
    by (simp add: deref_on_def rd_def)
  from deref_loop_sound[OF this r] show "derefs_to sz d a b \<and> t = tag_of (d b) \<and> v = val_of (d b)" .
next
  assume a: "derefs_to sz d a b \<and> t = tag_of (d b) \<and> v = val_of (d b)"
  then have r: "unat a < sz" by (auto dest: derefs_to_in_range)
  from a deref_loop_complete obtain n where
    "deref_loop n sz d a (tag_of (d a)) (val_of (d a)) = Inr (b, tag_of (d b), val_of (d b))" by blast
  with a r have "deref_on n sz d a = Inr (b, t, v)" by (simp add: deref_on_def rd_def)
  then show "\<exists>n. deref_on n sz d a = Inr (b, t, v)" by blast
qed

lemma derefs_to_end:
  "derefs_to sz d a b \<Longrightarrow> unat b < sz \<and> (tag_of (d b) \<noteq> REF_tag \<or> val_of (d b) = b)"
  by (induction rule: derefs_to.induct) auto

lemma l3deref_iff:
  "(\<exists>n. l3deref n s a = Inr (b, s')) \<longleftrightarrow>
   derefs_to TOP (data s) a b \<and>
   s' = s\<lparr>derefTag := tag_of (data s b), derefVal := val_of (data s b)\<rparr>"
proof
  assume "\<exists>n. l3deref n s a = Inr (b, s')"
  then obtain n where n: "l3deref n s a = Inr (b, s')" by blast
  then obtain t v where tv: "deref_on n TOP (data s) a = Inr (b, t, v)"
    and s': "s' = s\<lparr>derefTag := t, derefVal := v\<rparr>"
    by (auto simp: l3deref_def bindE_eq_Inr)
  from tv have "\<exists>n. deref_on n TOP (data s) a = Inr (b, t, v)" by blast
  then have "derefs_to TOP (data s) a b \<and> t = tag_of (data s b) \<and> v = val_of (data s b)"
    by (simp only: deref_on_iff)
  with s' show "derefs_to TOP (data s) a b \<and>
   s' = s\<lparr>derefTag := tag_of (data s b), derefVal := val_of (data s b)\<rparr>" by simp
next
  assume a: "derefs_to TOP (data s) a b \<and>
   s' = s\<lparr>derefTag := tag_of (data s b), derefVal := val_of (data s b)\<rparr>"
  then have "\<exists>n. deref_on n TOP (data s) a = Inr (b, tag_of (data s b), val_of (data s b))"
    by (simp only: deref_on_iff)
  then obtain n where "deref_on n TOP (data s) a = Inr (b, tag_of (data s b), val_of (data s b))" by blast
  with a have "l3deref n s a = Inr (b, s')" by (simp add: l3deref_def)
  then show "\<exists>n. l3deref n s a = Inr (b, s')" by blast
qed







section \<open>Unification of structures\<close>

lemma low_byte_le: "unat (f AND (0xFF::jint)) \<le> 255"
proof -
  have "f AND 0xFF \<le> 0xFF" by (rule word_and_le1)
  then show ?thesis by (simp add: word_le_nat_alt)
qed

lemma low_byte_ucast: "unat (ucast (f AND (0xFF::jint)) :: jbyte) = unat (f AND 0xFF)"
proof -
  have "unat (ucast (f AND (0xFF::jint)) :: jbyte) = take_bit 8 (unat (f AND 0xFF))"
    by (simp add: unsigned_ucast_eq)
  also have "\<dots> = unat (f AND 0xFF)"
    using low_byte_le[of f] by (simp add: take_bit_nat_eq_self)
  finally show ?thesis .
qed

lemma sint_byte_small:
  fixes b :: jbyte
  assumes "unat b < 128"
  shows "sint b = int (unat b)"
proof -
  from assms have "int (unat b) < int 128" by (simp only: of_nat_less_iff)
  then have "uint b < 128" by simp
  moreover have "0 \<le> uint b" by simp
  then have "- 128 \<le> uint b" by linarith
  ultimately have "sint b = uint b"
    using signed_take_bit_int_eq_self[of 7 "uint b"] by (simp add: sint_uint)
  then show ?thesis by simp
qed

lemma sint_byte_big:
  fixes b :: jbyte
  assumes "128 \<le> unat b"
  shows "sint b < 0"
proof -
  from assms have "int 128 \<le> int (unat b)" by (simp only: of_nat_le_iff)
  then have "128 \<le> uint b" by simp
  then have lt: "sint b < uint b"
    using signed_take_bit_int_less_self_iff[of 7 "uint b"] by (simp add: sint_uint)
  show ?thesis
  proof (rule ccontr)
    assume "\<not> sint b < 0"
    then have nn: "0 \<le> sint b" by simp
    have "sint b < 2 ^ 8" using sint_lt[of b] by simp
    with nn have "take_bit 8 (sint b) = sint b" by (simp add: take_bit_int_eq_self)
    with uint_sint[of b] have "uint b = sint b" by simp
    with lt show False by simp
  qed
qed

text \<open>
  The number of argument pairs that \<open>l3unify\<close> pushes for a functor word: its low byte
  when that is below 128, and none when it is 128 or more.
\<close>

lemma pushed_pairs_of_arity:
  fixes f_n :: jint
  shows "nat (sint (ucast (f_n AND 0xFF) :: jbyte)) =
     (if unat (f_n AND 0xFF) < 128 then unat (f_n AND 0xFF) else 0)"
proof (cases "unat (f_n AND 0xFF) < 128")
  case True
  then have "unat (ucast (f_n AND 0xFF) :: jbyte) < 128" by (simp only: low_byte_ucast)
  then have "sint (ucast (f_n AND 0xFF) :: jbyte) = int (unat (ucast (f_n AND 0xFF) :: jbyte))"
    by (rule sint_byte_small)
  with True show ?thesis by (simp only: low_byte_ucast nat_int if_True)
next
  case False
  then have "128 \<le> unat (ucast (f_n AND 0xFF) :: jbyte)" by (simp only: low_byte_ucast not_less)
  then have "sint (ucast (f_n AND 0xFF) :: jbyte) < 0" by (rule sint_byte_big)
  with False show ?thesis by simp
qed

text \<open>
  C1: \<open>unify\<close> should push the argument pairs \<open>(v1+i, v2+i)\<close> for every \<open>i\<close> from 1 to the
  arity when the two functor words are equal. The code reads the arity into a signed
  byte: on \<open>arity128_state\<close> the two structures have the functor word \<open>0x180\<close> (arity 128),
  \<open>n1\<close> is \<open>-128\<close>, no pair is pushed, and \<open>l3unify(0, 1)\<close> returns true although the first
  arguments are the different constants \<open>0x200\<close> and \<open>0x300\<close>. The only cells written are
  the two PDL slots of the first pair.
\<close>

theorem l3unify_arity128:
  "l3unify 3 arity128_state 0 1 =
     Inr (True, arity128_state\<lparr>data := arity128_heap(21009 := 0, 21008 := 1),
                              derefTag := STR_tag, derefVal := 20\<rparr>)"
  by (simp add: arity128_state_def arity128_heap_def l3_eval cong: bindE_cong)

section \<open>Environment frames\<close>

text \<open>What \<open>DEALLOCATE\<close> does: \<open>cp\<close> is not touched, and \<open>ip\<close> is read through the new \<open>ep\<close>.\<close>

lemma deallocate_step:
  assumes "code_at code (l_ip l) = Inr DEALLOCATE"
    and "unat (l_ep l) < TOP" and "unat (data s (l_ep l) + 1) < TOP"
  shows "l3_step n code l s =
           Inr (l\<lparr>l_esp := l_ep l, l_ep := data s (l_ep l), l_ip := data s (data s (l_ep l) + 1)\<rparr>, s)"
  using assms by (simp add: l3_step_def l3_DEALLOCATE_def l3rd_simps opcode_defs)

text \<open>
  C3: \<open>DEALLOCATE\<close> should set \<open>cp\<close> to \<open>data[ep+1]\<close>, restore \<open>ep\<close> and continue at the
  continuation saved in the frame being popped. The code does otherwise: run from reset
  on \<open>nested_frames\<close>, the \<open>DEALLOCATE\<close> of the inner frame (at offset 10, \<open>ep = 10013\<close>,
  saved continuation \<open>data[10014] = 7\<close>) continues at \<open>data[10011] = 11\<close>, the continuation
  saved in the outer frame. That is the end of the code: \<open>execute\<close> returns true, the
  \<open>DEALLOCATE\<close> of the caller at offset 7 never runs, and the outer frame stays allocated
  (\<open>esp = 10013\<close>, \<open>cp = 7\<close>).
\<close>

theorem deallocate_nested_frames:
  "execute 6 nativeReset nested_frames 0 =
     Inr (True, nativeReset\<lparr>cp := 7, esp := 10013,
            data := (data nativeReset)(10010 := 10010, 10011 := 11, 10012 := 0,
                                       10013 := 10010, 10014 := 7, 10015 := 0)\<rparr>)"
  by (simp add: nested_frames_def l3_eval le32_def cong: bindE_cong)

text \<open>
  C5: for every state of the decode loop in which the three header cells at \<open>esp\<close> and the
  cell at \<open>ep + 1\<close> lie in the data area, and for every frame size \<open>N\<close>, executing
  \<open>ALLOCATE N\<close> and then the \<open>DEALLOCATE\<close> that follows it at \<open>ip + 2\<close> succeeds and leaves
  \<open>ep\<close>, \<open>cp\<close> and \<open>esp\<close> as they were before the \<open>ALLOCATE\<close>.
\<close>

theorem allocate_deallocate:
  assumes c0: "code_at code (l_ip l) = Inr ALLOCATE"
    and c1: "code_at code (l_ip l + 1) = Inr N"
    and c2: "code_at code (l_ip l + 2) = Inr DEALLOCATE"
    and r1: "unat (l_esp l) + 2 < TOP"
    and r2: "unat (l_ep l + 1) < TOP"
  shows "\<exists>l1 s1 l2 s2. l3_step n code l s = Inr (l1, s1) \<and> l_ip l1 = l_ip l + 2 \<and>
           l3_step n code l1 s1 = Inr (l2, s2) \<and>
           l_ep l2 = l_ep l \<and> l_cp l2 = l_cp l \<and> l_esp l2 = l_esp l"
proof -
  have e0: "unat (l_esp l) < TOP" and e1: "unat (l_esp l + 1) < TOP" and e2: "unat (l_esp l + 2) < TOP"
    using r1 by (simp_all add: unat_plus1 unat_plus2)
  define s1 where
    "s1 = s\<lparr>data := (data s)(l_esp l := l_ep l, l_esp l + 1 := l_cp l, l_esp l + 2 := scast N)\<rparr>"
  define l1 where "l1 = l\<lparr>l_ep := l_esp l, l_esp := l_esp l + scast N + 3, l_ip := l_ip l + 2\<rparr>"
  have st1: "l3_step n code l s = Inr (l1, s1)"
    using c0 c1 e0 e1 e2
    by (simp add: l3_step_def l3_ALLOCATE_def l3wr_simps opcode_defs Let_def l1_def s1_def)
  have d: "data s1 (l_esp l) = l_ep l"
    by (simp add: s1_def)
  have st2: "l3_step n code l1 s1 =
               Inr (l1\<lparr>l_esp := l_ep l1, l_ep := l_ep l, l_ip := data s1 (l_ep l + 1)\<rparr>, s1)"
    using c2 e0 r2 d
    by (simp add: l3_step_def l3_DEALLOCATE_def l3rd_simps opcode_defs l1_def)
  show ?thesis using st1 st2 by (simp add: l1_def)
qed

theorem allocate_deallocate_witness:
  "\<exists>l1 s1 l2 s2.
     l3_step 0 [ALLOCATE, 2, DEALLOCATE] (fst (l3_entry nativeReset [ALLOCATE, 2, DEALLOCATE] 0))
       nativeReset = Inr (l1, s1) \<and> l_ip l1 = 2 \<and>
     l3_step 0 [ALLOCATE, 2, DEALLOCATE] l1 s1 = Inr (l2, s2) \<and>
     l_ep l2 = 10010 \<and> l_cp l2 = 3 \<and> l_esp l2 = 10010"
proof -
  let ?code = "[ALLOCATE, 2, DEALLOCATE]"
  let ?l = "fst (l3_entry nativeReset ?code 0)"
  have "code_at ?code (l_ip ?l) = Inr ALLOCATE" "code_at ?code (l_ip ?l + 1) = Inr 2"
    "code_at ?code (l_ip ?l + 2) = Inr DEALLOCATE" "unat (l_esp ?l) + 2 < TOP" "unat (l_ep ?l + 1) < TOP"
    by (simp_all add: l3_entry_def code_at_def nativeReset_def TOP_val REG_SIZE_def HEAP_SIZE_def)
  from allocate_deallocate [OF this, of 0 nativeReset] show ?thesis
    by (simp add: l3_entry_def nativeReset_def REG_SIZE_def HEAP_SIZE_def)
qed

section \<open>Matching a structure\<close>

text \<open>
  C4, as stated, fails: after reset, executing \<open>GET_STRUC X0, foo/0\<close> (the functor word
  \<open>0x100\<close>) returns true and changes no cell: \<open>X0\<close> is still the cell 0, whose tag is
  neither \<open>REF\<close> nor \<open>STR\<close>, and \<open>writeMode\<close> is still false.
\<close>

theorem get_struc_after_reset_counterexample:
  "execute 3 nativeReset [GET_STRUC, REG_ADDR, 0, 0, 1, 0, 0] 0 = Inr (True, nativeReset\<lparr>cp := 7\<rparr>) \<and>
   data (nativeReset\<lparr>cp := 7\<rparr>) 0 = 0 \<and> writeMode (nativeReset\<lparr>cp := 7\<rparr>) = False"
  by (simp add: l3_eval cong: bindE_cong)

text \<open>
  C4, amended: after reset, executing the single instruction \<open>GET_STRUC X0, f/n\<close> succeeds
  and changes neither the data area nor \<open>writeMode\<close> (the cell 0 in \<open>X0\<close> is not a free
  variable). When \<open>X0\<close> is first made a free variable by \<open>SET_VAR X0\<close> (\<open>X0\<close> and cell 10 are
  \<open>REF\<close> to 10), \<open>GET_STRUC X0, f/n\<close> succeeds, binds that variable to the new \<open>STR\<close> cell at
  11, which points at the functor cell \<open>f/n\<close> at 12, and leaves \<open>writeMode\<close> true.
\<close>

theorem get_struc_after_reset:
  "execute 3 nativeReset [GET_STRUC, REG_ADDR, 0, b0, b1, b2, b3] 0 = Inr (True, nativeReset\<lparr>cp := 7\<rparr>) \<and>
   execute 5 nativeReset [SET_VAR, REG_ADDR, 0, GET_STRUC, REG_ADDR, 0, b0, b1, b2, b3] 0 =
     Inr (True, nativeReset\<lparr>cp := 10, hp := 13, writeMode := True, derefTag := REF_tag, derefVal := 10,
            data := (data nativeReset)(0 := cell REF_tag 10, 11 := cell STR_tag 12,
                                       12 := le32 b0 b1 b2 b3, 10 := cell REF_tag 11)\<rparr>)"
  by (simp add: l3_eval cong: bindE_cong)

section \<open>Reset\<close>

text \<open>
  C6, as stated, fails on \<open>l0reset\<close>: the L0 machine takes its heap from \<open>malloc\<close> and sets
  no cell of it, so after a reset on memory that holds \<open>0xABABABAB\<close> the cell that
  \<open>getHeap(10)\<close> reads is \<open>0xABABABAB\<close>, not 0; and its unification stack is an array of
  its own that is empty at \<open>up = -1\<close>, not at \<open>TOP\<close>.
\<close>

theorem l0reset_counterexample:
  "l0_getHeap (l0reset 0 stale_memory stale_memory) 10 = Inr 0xABABABAB \<and>
   l0_up (l0reset 0 stale_memory stale_memory) \<noteq> of_nat TOP"
  by (simp add: l0_getHeap_def l0reset_def stale_memory_def rd_def L0_HEAP_def REG_SIZE_def HEAP_SIZE_def
      TOP_val)

text \<open>
  C6, amended: after \<open>nativeReset\<close> of the L3 machine every cell of the data area is zero
  (\<open>getHeap\<close> gives 0 at every address below \<open>TOP\<close>), \<open>hp = sp = REG_SIZE\<close>,
  \<open>ep = esp = REG_SIZE + HEAP_SIZE\<close>, \<open>up = TOP\<close>, \<open>writeMode\<close> is false and the tag
  and value of the last dereference are 0. After \<open>l0reset\<close> of the L0 machine, whatever
  the fresh memory holds, \<open>hp = sp = REG_SIZE\<close>, the unification stack is empty
  (\<open>up = -1\<close>), \<open>writeMode\<close> is false and the tag and value of the last dereference are
  0; the L0 machine has no \<open>ep\<close> and no \<open>esp\<close>.
\<close>

theorem reset_state:
  "((\<forall>a. unat a < TOP \<longrightarrow> getHeap nativeReset a = Inr 0) \<and>
    hp nativeReset = of_nat REG_SIZE \<and> sp nativeReset = of_nat REG_SIZE \<and>
    ep nativeReset = of_nat (REG_SIZE + HEAP_SIZE) \<and> esp nativeReset = of_nat (REG_SIZE + HEAP_SIZE) \<and>
    up nativeReset = of_nat TOP \<and> writeMode nativeReset = False \<and>
    getDerefTag nativeReset = 0 \<and> getDerefVal nativeReset = 0) \<and>
   (l0_hp (l0reset i h u) = of_nat REG_SIZE \<and> l0_sp (l0reset i h u) = of_nat REG_SIZE \<and>
    l0_up (l0reset i h u) = - 1 \<and> uEmpty (l0reset i h u) \<and> l0_writeMode (l0reset i h u) = False \<and>
    l0_derefTag (l0reset i h u) = 0 \<and> l0_derefVal (l0reset i h u) = 0)"
  by (simp add: nativeReset_def getHeap_def rd_def getDerefTag_def getDerefVal_def l0reset_def uEmpty_def)

theorem reset_state_witness:
  "unat (20000 :: jint) < TOP \<and> getHeap nativeReset 20000 = Inr 0"
  using reset_state by (simp add: TOP_val)

section \<open>Inspection of stack slots\<close>

text \<open>
  C7, as stated, fails on the L2 machine: on \<open>l2_zero_machine\<close> (\<open>ep = 10010\<close>),
  \<open>derefStack(0)\<close> dereferences address 10012, not \<open>0 + ep + 3 = 10013\<close>.
\<close>

theorem l2_derefStack_counterexample:
  "l2_derefStack 1 l2_zero_machine 0 \<noteq>
   l2_deref 1 l2_zero_machine (0 + l2_ep (l2state l2_zero_machine) + 3)"
  by (simp add: l2_derefStack_def l2_deref_def l2jitderef_def l2_zero_machine_def l2_reset_state_def
      deref_on_def rd_def TOP_val REG_SIZE_def HEAP_SIZE_def tag_of_def val_of_def REF_tag_def
      cong: bindE_cong)

text \<open>
  C7, amended: for every slot index \<open>k\<close>, \<open>derefStack(k)\<close> returns the same address and
  leaves the same tag and value as \<open>deref(k + ep + h)\<close>, where \<open>h\<close> is the size of the
  frame header of the machine: 3 in the L3 interpreter and 2 in the L2 machine.
\<close>

theorem derefStack_header_offset:
  "derefStack n s k = deref n s (k + ep s + 3) \<and>
   l2_derefStack n m k = l2_deref n m (k + l2_ep (l2state m) + 2)"
  by (simp add: derefStack_def deref_def l2_derefStack_def l2_deref_def)

section \<open>Unknown opcodes\<close>

text \<open>The L3 interpreter fails on a byte that is none of its fourteen opcodes.\<close>

lemma l3_unknown_opcode_step:
  assumes "code_at code (l_ip l) = Inr instruction"
    and "instruction \<notin> {PUT_STRUC, SET_VAR, SET_VAL, GET_STRUC, UNIFY_VAR, UNIFY_VAL, PUT_VAR, PUT_VAL,
                          GET_VAR, GET_VAL, CALL, PROCEED, ALLOCATE, DEALLOCATE}"
  shows "l3_step n code l s = Inr (l\<lparr>l_failed := True\<rparr>, s)"
  using assms by (simp add: l3_step_def)

lemma l3_unknown_opcode_loop:
  assumes "\<not> l_failed l" and "sint (l_ip l) < int (length code)"
    and "code_at code (l_ip l) = Inr instruction"
    and "instruction \<notin> {PUT_STRUC, SET_VAR, SET_VAL, GET_STRUC, UNIFY_VAR, UNIFY_VAL, PUT_VAR, PUT_VAL,
                          GET_VAR, GET_VAL, CALL, PROCEED, ALLOCATE, DEALLOCATE}"
  shows "l3_loop (Suc (Suc n)) code l s = Inr (l\<lparr>l_failed := True\<rparr>, s)"
  using assms by (simp add: l3_unknown_opcode_step)

lemma l3_unknown_opcode_execute:
  assumes "sint offset < int (length code)"
    and "code_at code offset = Inr instruction"
    and "instruction \<notin> {PUT_STRUC, SET_VAR, SET_VAL, GET_STRUC, UNIFY_VAR, UNIFY_VAL, PUT_VAR, PUT_VAL,
                          GET_VAR, GET_VAL, CALL, PROCEED, ALLOCATE, DEALLOCATE}"
  shows "execute (Suc (Suc n)) s code offset = Inr (False, (l3uClear s)\<lparr>cp := of_nat (length code)\<rparr>)"
proof -
  obtain l0 s0 where e: "l3_entry s code offset = (l0, s0)" by (cases "l3_entry s code offset")
  then have l0: "\<not> l_failed l0" "l_ip l0 = offset" "l_hp l0 = hp s" "l_sp l0 = sp s"
      "l_cp l0 = of_nat (length code)" "l_ep l0 = ep s" "l_esp l0 = esp s" "l_writeMode l0 = writeMode s"
    and s0: "s0 = l3uClear s"
    by (auto simp: l3_entry_def)
  from assms l0(1,2) have "l3_loop (Suc (Suc n)) code l0 s0 = Inr (l0\<lparr>l_failed := True\<rparr>, s0)"
    by (intro l3_unknown_opcode_loop) simp_all
  with e l0 s0 show ?thesis
    by (simp add: execute_def l3uClear_def)
qed

text \<open>
  C8: an opcode byte that is not a defined instruction should make \<open>execute\<close> return
  false. The decode loop of the L0 machine has no default case: on the code \<open>0xFF, 0\<close> it
  reads the unknown byte and its operand, does nothing, and \<open>execute\<close> returns true,
  whatever the state of the machine.
\<close>

theorem l0_unknown_opcode_ignored:
  "l0_execute 2 l0state i h u [0xFF, 0] =
     Inr (True, uClear (case l0state of None \<Rightarrow> l0reset i h u | Some s0 \<Rightarrow> s0))"
  by (simp add: l0_execute_def l0_loop_numeral l0_step_def code_at_def opcode_defs Let_def uClear_def
      cong: bindE_cong)

section \<open>Termination of dereferencing\<close>

lemma cycle_program_run: "execute 5 nativeReset cycle_program 0 = Inr (True, cycle_state)"
  by (simp add: cycle_program_def cycle_state_def l3_eval cong: bindE_cong)

lemma cycle_deref_loop:
  "deref_loop n TOP (data cycle_state) a REF_tag 10 = Inl OutOfFuel \<and>
   deref_loop n TOP (data cycle_state) a' REF_tag 1 = Inl OutOfFuel"
proof (induction n arbitrary: a a')
  case 0
  show ?case by simp
next
  case (Suc n)
  have c10: "data cycle_state 10 = cell REF_tag 1" and c1: "data cycle_state 1 = cell REF_tag 10"
    by (simp_all add: cycle_state_def)
  have v: "val_of (cell REF_tag 1) = 1" "val_of (cell REF_tag 10) = 10"
    by (simp_all add: val_of_cell)
  show ?case using Suc.IH[of 1 10]
    by (simp add: rd_def TOP_val c10 c1 v tag_of_cell_REF)
qed

lemma cycle_never_returns: "\<not> l3deref_returns cycle_state 1"
proof -
  have "l3deref n cycle_state 1 = Inl OutOfFuel" for n
    using cycle_deref_loop[of n 1 1]
    by (simp add: l3deref_def deref_on_def rd_def TOP_val cycle_state_def tag_of_cell_REF val_of_cell)
  then show ?thesis by (simp add: l3deref_returns_def)
qed

text \<open>
  C9, as stated, fails: \<open>execute\<close> from reset on \<open>cycle_program\<close> (\<open>SET_VAR X0\<close>,
  \<open>GET_VAL X0, A1\<close>, \<open>PUT_VAL X0, A1\<close>) succeeds and leaves \<open>cycle_state\<close>, in which cell 1
  is \<open>REF\<close> to 10 and cell 10 is \<open>REF\<close> to 1; \<open>l3deref\<close> at address 1 returns for no amount
  of fuel.
\<close>

theorem deref_cycle_counterexample:
  "execute 5 nativeReset cycle_program 0 = Inr (True, cycle_state) \<and>
   \<not> l3deref_returns cycle_state 1"
  using cycle_program_run cycle_never_returns by simp

lemma l3deref_returns_iff: "l3deref_returns s a \<longleftrightarrow> (\<exists>b. derefs_to TOP (data s) a b)"
proof
  assume "l3deref_returns s a"
  then obtain n b t v where "deref_on n TOP (data s) a = Inr (b, t, v)"
    by (auto simp: l3deref_returns_def l3deref_def bindE_eq_Inr)
  then have "\<exists>n. deref_on n TOP (data s) a = Inr (b, t, v)" by blast
  then show "\<exists>b. derefs_to TOP (data s) a b" by (auto simp only: deref_on_iff)
next
  assume "\<exists>b. derefs_to TOP (data s) a b"
  then obtain b where "derefs_to TOP (data s) a b" by blast
  then have "\<exists>n. deref_on n TOP (data s) a = Inr (b, tag_of (data s b), val_of (data s b))"
    by (simp only: deref_on_iff)
  then obtain n where "deref_on n TOP (data s) a = Inr (b, tag_of (data s b), val_of (data s b))"
    by blast
  then have "l3deref n s a = Inr (b, s\<lparr>derefTag := tag_of (data s b), derefVal := val_of (data s b)\<rparr>)"
    by (simp add: l3deref_def)
  then show "l3deref_returns s a"
    unfolding l3deref_returns_def by blast
qed

lemma val_of_small: "unat (a::jint) < TOP \<Longrightarrow> a AND 0xFFFFFF = a"
proof -
  assume "unat a < TOP"
  then have "unat a < 2 ^ 24" by (simp add: TOP_val)
  then have "a < 2 ^ 24" by (simp add: word_less_nat_alt)
  then show ?thesis unfolding mask24 by (rule less_mask_eq)
qed

text \<open>Storing a safe cell keeps every chain of \<open>REF\<close> cells ending.\<close>

lemma avoids_upd: "avoids sz d x p \<Longrightarrow> \<exists>b. derefs_to sz (d(x := c)) p b"
proof (induction rule: avoids.induct)
  case (stop a)
  then have "derefs_to sz (d(x := c)) a a" by (auto intro: derefs_to.stop)
  then show ?case by blast
next
  case (hop a)
  from hop.IH obtain b where "derefs_to sz (d(x := c)) (val_of (d a)) b" by blast
  with hop.hyps(1,2,3,4) have "derefs_to sz (d(x := c)) a b" by (auto intro: derefs_to.hop)
  then show ?case by blast
qed

lemma write_safe_at:
  assumes r: "unat x < TOP" and sc: "safe_cell d x c"
  shows "\<exists>b. derefs_to TOP (d(x := c)) x b"
proof (cases "tag_of c \<noteq> REF_tag \<or> val_of c = x")
  case True
  with r have "derefs_to TOP (d(x := c)) x x" by (auto intro: derefs_to.stop)
  then show ?thesis by blast
next
  case False
  with sc have "avoids TOP d x (val_of c)" by (simp add: safe_cell_def)
  from avoids_upd[OF this] obtain b where "derefs_to TOP (d(x := c)) (val_of c) b" by blast
  with False r have "derefs_to TOP (d(x := c)) x b" by (auto intro: derefs_to.hop)
  then show ?thesis by blast
qed

lemma write_safe_chain:
  assumes sc: "safe_cell d x c" and ab: "derefs_to TOP d a b"
  shows "\<exists>b'. derefs_to TOP (d(x := c)) a b'"
  using ab
proof (induction rule: derefs_to.induct)
  case (stop a)
  show ?case
  proof (cases "a = x")
    case True
    with stop.hyps(1) have "unat x < TOP" by simp
    from write_safe_at[OF this sc] show ?thesis unfolding True .
  next
    case False
    with stop have "derefs_to TOP (d(x := c)) a a" by (auto intro: derefs_to.stop)
    then show ?thesis by blast
  qed
next
  case (hop a b)
  show ?case
  proof (cases "a = x")
    case True
    with hop.hyps(1) have "unat x < TOP" by simp
    from write_safe_at[OF this sc] show ?thesis unfolding True .
  next
    case False
    from hop.IH obtain b' where "derefs_to TOP (d(x := c)) (val_of (d a)) b'" by blast
    with False hop.hyps(1,2,3) have "derefs_to TOP (d(x := c)) a b'" by (auto intro: derefs_to.hop)
    then show ?thesis by blast
  qed
qed

lemma write_safe: "chains_end d \<Longrightarrow> safe_cell d x c \<Longrightarrow> chains_end (d(x := c))"
  unfolding chains_end_def by (blast intro: write_safe_chain)

lemma safe_cell_plain: "tag_of c \<noteq> REF_tag \<Longrightarrow> safe_cell d x c"
  by (simp add: safe_cell_def)

lemma safe_cell_terminal:
  "unat p < TOP \<Longrightarrow> tag_of (d p) \<noteq> REF_tag \<or> val_of (d p) = p \<Longrightarrow> val_of c = p \<Longrightarrow> safe_cell d x c"
  by (cases "p = x") (auto simp: safe_cell_def intro: avoids.stop)

lemma tag_of_small: "unat (w::jint) < 2 ^ 24 \<Longrightarrow> tag_of w = 0"
proof -
  assume "unat w < 2 ^ 24"
  then have "w < 2 ^ 24" by (simp add: word_less_nat_alt)
  then have "w AND mask 24 = w" by (rule less_mask_eq)
  then have "tag_of w = tag_of (w AND mask 24)" by simp
  also have "\<dots> = 0"
    unfolding tag_of_def by (rule bit_word_eqI) (auto simp add: bit_simps)
  finally show ?thesis .
qed

lemma tag_of_scast: "tag_of (scast (b::jbyte)) \<noteq> REF_tag"
proof
  assume a: "tag_of (scast b) = REF_tag"
  have "bit (tag_of (scast b)) 0 = bit (tag_of (scast b)) 1"
    unfolding tag_of_def by (auto simp add: bit_simps)
  with a show False by (simp add: REF_tag_def)
qed

text \<open>What \<open>l3unify\<close> stores: PDL entries, which are addresses of cells, and bindings.\<close>

lemma l3uPush_eq:
  "l3uPush v s = Inr s' \<longleftrightarrow> unat (up s - 1) < TOP \<and> s' = s\<lparr>data := (data s)(up s - 1 := v), up := up s - 1\<rparr>"
  by (auto simp: l3uPush_def wr_def bindE_eq_Inr)

lemma l3uPop_eq:
  "l3uPop s = Inr (v, s') \<longleftrightarrow> unat (up s) < TOP \<and> v = data s (up s) \<and> s' = s\<lparr>up := up s + 1\<rparr>"
  by (auto simp: l3uPop_def rd_def bindE_eq_Inr)

lemma l3uPush_chains:
  assumes "l3uPush v s = Inr s'" and "chains_end (data s)" and "tag_of v \<noteq> REF_tag"
  shows "chains_end (data s')"
  using assms by (auto simp: l3uPush_eq intro: write_safe safe_cell_plain)

lemma tag_of_arg:
  assumes "unat (v::jint) < TOP" and "i \<le> 127"
  shows "tag_of (v + of_nat i) \<noteq> REF_tag"
proof -
  have "unat (v + of_nat i) \<le> unat v + unat (of_nat i :: jint)"
    by (simp add: unat_word_ariths)
  also have "unat (of_nat i :: jint) \<le> i" by (simp add: unat_of_nat)
  finally have "unat (v + of_nat i) < 2 ^ 24" using assms by (simp add: TOP_val)
  then have "tag_of (v + of_nat i) = 0" by (rule tag_of_small)
  then show ?thesis by (simp add: REF_tag_def)
qed

lemma l3push_args_chains:
  "l3push_args v1 v2 is s = Inr s' \<Longrightarrow> chains_end (data s) \<Longrightarrow>
   \<forall>i\<in>set is. tag_of (v1 + of_nat i) \<noteq> REF_tag \<and> tag_of (v2 + of_nat i) \<noteq> REF_tag \<Longrightarrow>
   chains_end (data s')"
proof (induction "is" arbitrary: s)
  case Nil
  then show ?case by simp
next
  case (Cons i "is")
  from Cons.prems(1) obtain s1 s2 where p1: "l3uPush (v1 + of_nat i) s = Inr s1"
    and p2: "l3uPush (v2 + of_nat i) s1 = Inr s2" and r: "l3push_args v1 v2 is s2 = Inr s'"
    by (auto simp: bindE_eq_Inr)
  from Cons.prems(3) have t: "tag_of (v1 + of_nat i) \<noteq> REF_tag" "tag_of (v2 + of_nat i) \<noteq> REF_tag"
    and rest: "\<forall>i\<in>set is. tag_of (v1 + of_nat i) \<noteq> REF_tag \<and> tag_of (v2 + of_nat i) \<noteq> REF_tag"
    by simp_all
  from l3uPush_chains[OF p1 Cons.prems(2) t(1)] have "chains_end (data s1)" .
  from l3uPush_chains[OF p2 this t(2)] have "chains_end (data s2)" .
  from Cons.IH[OF r this rest] show ?case .
qed

lemma arity_le_127: "i \<in> set [1 ..< Suc (nat (sint (n1::jbyte)))] \<Longrightarrow> i \<le> 127"
proof -
  assume "i \<in> set [1 ..< Suc (nat (sint n1))]"
  then have "int i \<le> sint n1" by auto
  moreover have "sint n1 < 2 ^ 7" using sint_lt[of n1] by simp
  ultimately show ?thesis by simp
qed

lemma l3unify_pair_chains:
  assumes u: "l3unify_pair d1 (tag_of (data s d1)) (val_of (data s d1)) d2 (tag_of (data s d2)) (val_of (data s d2)) s = Inr (f, s')"
    and c: "chains_end (data s)"
    and e1: "unat d1 < TOP" "tag_of (data s d1) \<noteq> REF_tag \<or> val_of (data s d1) = d1"
    and e2: "unat d2 < TOP" "tag_of (data s d2) \<noteq> REF_tag \<or> val_of (data s d2) = d2"
  shows "chains_end (data s')"
proof (cases "d1 = d2")
  case True
  with u have "s' = s" by (simp add: l3unify_pair_def)
  with c show ?thesis by simp
next
  case ne: False
  have v1: "val_of (cell REF_tag d1) = d1" and v2: "val_of (cell REF_tag d2) = d2"
    using e1(1) e2(1) by (simp_all add: val_of_cell val_of_small)
  show ?thesis
  proof (cases "tag_of (data s d1) = REF_tag")
    case True
    with u ne have "s' = s\<lparr>data := (data s)(d1 := cell REF_tag d2)\<rparr>"
      by (auto simp: l3unify_pair_def bindE_eq_Inr wr_def split: if_splits)
    moreover have "safe_cell (data s) d1 (cell REF_tag d2)"
      using e2 v2 by (rule safe_cell_terminal)
    ultimately show ?thesis using c by (simp add: write_safe)
  next
    case n1: False
    show ?thesis
    proof (cases "tag_of (data s d2) = REF_tag")
      case True
      with u ne n1 have "s' = s\<lparr>data := (data s)(d2 := cell REF_tag d1)\<rparr>"
        by (auto simp: l3unify_pair_def bindE_eq_Inr wr_def split: if_splits)
      moreover have "safe_cell (data s) d2 (cell REF_tag d1)"
        using e1 v1 by (rule safe_cell_terminal)
      ultimately show ?thesis using c by (simp add: write_safe)
    next
      case n2: False
      let ?v1 = "val_of (data s d1)" and ?v2 = "val_of (data s d2)"
      from u ne n1 n2 have r: "unat ?v1 < TOP" "unat ?v2 < TOP"
        by (auto simp: l3unify_pair_def bindE_eq_Inr rd_def split: if_splits)
      from u ne n1 n2 r have "s' = s \<or>
          l3push_args ?v1 ?v2 [1 ..< Suc (nat (sint (ucast (data s ?v1 AND 0xFF) :: jbyte)))] s = Inr s'"
        by (auto simp: l3unify_pair_def bindE_eq_Inr rd_def Let_def split: if_splits)
      then show ?thesis
      proof
        assume "s' = s"
        with c show ?thesis by simp
      next
        assume p: "l3push_args ?v1 ?v2 [1 ..< Suc (nat (sint (ucast (data s ?v1 AND 0xFF) :: jbyte)))] s = Inr s'"
        have "\<forall>i\<in>set [1 ..< Suc (nat (sint (ucast (data s ?v1 AND 0xFF) :: jbyte)))].
                tag_of (?v1 + of_nat i) \<noteq> REF_tag \<and> tag_of (?v2 + of_nat i) \<noteq> REF_tag"
        proof (intro ballI conjI)
          fix i assume "i \<in> set [1 ..< Suc (nat (sint (ucast (data s ?v1 AND 0xFF) :: jbyte)))]"
          then have i: "i \<le> 127" by (rule arity_le_127)
          from tag_of_arg[OF r(1) i] show "tag_of (?v1 + of_nat i) \<noteq> REF_tag" .
          from tag_of_arg[OF r(2) i] show "tag_of (?v2 + of_nat i) \<noteq> REF_tag" .
        qed
        from l3push_args_chains[OF p c this] show ?thesis .
      qed
    qed
  qed
qed

lemma l3deref_eq:
  assumes "l3deref n s a = Inr (b, s')"
  shows "derefs_to TOP (data s) a b \<and> s' = s\<lparr>derefTag := tag_of (data s b), derefVal := val_of (data s b)\<rparr>"
proof -
  from assms have "\<exists>n. l3deref n s a = Inr (b, s')" by blast
  then show ?thesis by (simp only: l3deref_iff)
qed

lemma l3unify_body_chains:
  assumes b: "l3unify_body n s = Inr (f, s')" and c: "chains_end (data s)"
  shows "chains_end (data s')"
proof -
  from b obtain x1 s1 d1 s2 x2 s3 d2 s4 where
    p1: "l3uPop s = Inr (x1, s1)" and q1: "l3deref n s1 x1 = Inr (d1, s2)" and
    p2: "l3uPop s2 = Inr (x2, s3)" and q2: "l3deref n s3 x2 = Inr (d2, s4)" and
    rest: "l3unify_pair d1 (derefTag s2) (derefVal s2) d2 (derefTag s4) (derefVal s4) s4 = Inr (f, s')"
    by (auto simp: l3unify_body_def bindE_eq_Inr Let_def)
  from p1 have d1: "data s1 = data s" by (auto simp: l3uPop_eq)
  from l3deref_eq[OF q1] have r1: "derefs_to TOP (data s1) x1 d1"
    and s2: "s2 = s1\<lparr>derefTag := tag_of (data s1 d1), derefVal := val_of (data s1 d1)\<rparr>" by simp_all
  from p2 have d3: "data s3 = data s2" by (auto simp: l3uPop_eq)
  from l3deref_eq[OF q2] have r2: "derefs_to TOP (data s3) x2 d2"
    and s4: "s4 = s3\<lparr>derefTag := tag_of (data s3 d2), derefVal := val_of (data s3 d2)\<rparr>" by simp_all
  have dd: "data s4 = data s" "data s3 = data s" "data s1 = data s" using d1 s2 d3 s4 by simp_all
  have t: "derefTag s2 = tag_of (data s4 d1)" "derefVal s2 = val_of (data s4 d1)"
    "derefTag s4 = tag_of (data s4 d2)" "derefVal s4 = val_of (data s4 d2)"
    using s2 s4 dd by simp_all
  from derefs_to_end[OF r1] derefs_to_end[OF r2] dd
  have e: "unat d1 < TOP" "tag_of (data s4 d1) \<noteq> REF_tag \<or> val_of (data s4 d1) = d1"
    "unat d2 < TOP" "tag_of (data s4 d2) \<noteq> REF_tag \<or> val_of (data s4 d2) = d2" by simp_all
  from c dd have c4: "chains_end (data s4)" by simp
  from rest have "l3unify_pair d1 (tag_of (data s4 d1)) (val_of (data s4 d1)) d2 (tag_of (data s4 d2)) (val_of (data s4 d2)) s4 = Inr (f, s')"
    by (simp only: t)
  from l3unify_pair_chains[OF this c4 e] show ?thesis .
qed

lemma l3unify_loop_chains:
  "l3unify_loop n s = Inr (f, s') \<Longrightarrow> chains_end (data s) \<Longrightarrow> chains_end (data s')"
proof (induction n arbitrary: s)
  case 0
  then show ?case by simp
next
  case (Suc n)
  show ?case
  proof (cases "l3uEmpty s")
    case True
    with Suc.prems show ?thesis by simp
  next
    case False
    with Suc.prems(1) obtain f1 s1 where b: "l3unify_body n s = Inr (f1, s1)"
      and r: "s' = s1 \<or> l3unify_loop n s1 = Inr (f, s')"
      by (auto simp: bindE_eq_Inr split: if_splits)
    from l3unify_body_chains[OF b Suc.prems(2)] have c1: "chains_end (data s1)" .
    from r show ?thesis
    proof
      assume "s' = s1" with c1 show ?thesis by simp
    next
      assume "l3unify_loop n s1 = Inr (f, s')"
      from Suc.IH[OF this c1] show ?thesis .
    qed
  qed
qed

text \<open>The two addresses given to a unification that returns lie in the data area.\<close>

lemma l3unify_args_in_range:
  assumes u: "l3unify n s a1 a2 = Inr (r, s')"
  shows "unat a1 < TOP \<and> unat a2 < TOP"
proof -
  from u obtain s1 s2 f where p1: "l3uPush a1 s = Inr s1" and p2: "l3uPush a2 s1 = Inr s2"
    and l: "l3unify_loop n s2 = Inr (f, s')"
    by (auto simp: l3unify_def bindE_eq_Inr)
  from p1 have s1: "unat (up s - 1) < TOP" "s1 = s\<lparr>data := (data s)(up s - 1 := a1), up := up s - 1\<rparr>"
    by (simp_all add: l3uPush_eq)
  from p2 have s2: "unat (up s1 - 1) < TOP" "s2 = s1\<lparr>data := (data s1)(up s1 - 1 := a2), up := up s1 - 1\<rparr>"
    by (simp_all add: l3uPush_eq)
  from s2 have lt: "unat (up s2) < TOP" by simp
  then have "sint (up s2) = int (unat (up s2))" by (intro sint_eq_unat) (simp add: TOP_val)
  moreover from lt have "int (unat (up s2)) < int TOP" by (simp only: of_nat_less_iff)
  ultimately have ne: "\<not> l3uEmpty s2" unfolding l3uEmpty_def by linarith
  from l obtain m where n: "n = Suc m" by (cases n) simp_all
  from l n ne obtain f1 s3 where b: "l3unify_body m s2 = Inr (f1, s3)"
    by (auto simp: bindE_eq_Inr)
  then obtain x1 t1 d1 t2 x2 t3 d2 t4 where
    q1: "l3uPop s2 = Inr (x1, t1)" and r1: "l3deref m t1 x1 = Inr (d1, t2)" and
    q2: "l3uPop t2 = Inr (x2, t3)" and r2: "l3deref m t3 x2 = Inr (d2, t4)"
    by (auto simp: l3unify_body_def bindE_eq_Inr Let_def)
  from q1 s2 have x1: "x1 = a2" and t1: "t1 = s2\<lparr>up := up s2 + 1\<rparr>" by (simp_all add: l3uPop_eq)
  from l3deref_eq[OF r1] have t2: "up t2 = up t1" "data t2 = data t1" and i1: "unat x1 < TOP"
    by (auto dest: derefs_to_in_range)
  from q2 have "x2 = data t2 (up t2)" by (simp add: l3uPop_eq)
  also have "\<dots> = data s2 (up s1)" using t2 t1 s2 by simp
  also have "\<dots> = a1" using s2 s1 by simp
  finally have x2: "x2 = a1" .
  from l3deref_eq[OF r2] have "unat x2 < TOP" by (auto dest: derefs_to_in_range)
  with i1 x1 x2 show ?thesis by simp
qed

lemma tag_of_in_range: "unat (a::jint) < TOP \<Longrightarrow> tag_of a \<noteq> REF_tag"
  using tag_of_arg[of a 0] by simp

lemma l3unify_chains:
  assumes u: "l3unify n s a1 a2 = Inr (r, s')" and c: "chains_end (data s)"
  shows "chains_end (data s')"
proof -
  from l3unify_args_in_range[OF u] have t: "tag_of a1 \<noteq> REF_tag" "tag_of a2 \<noteq> REF_tag"
    by (simp_all add: tag_of_in_range)
  from u obtain s1 s2 f where p1: "l3uPush a1 s = Inr s1" and p2: "l3uPush a2 s1 = Inr s2"
    and l: "l3unify_loop n s2 = Inr (f, s')"
    by (auto simp: l3unify_def bindE_eq_Inr)
  from l3uPush_chains[OF p1 c t(1)] have "chains_end (data s1)" .
  from l3uPush_chains[OF p2 this t(2)] have "chains_end (data s2)" .
  from l3unify_loop_chains[OF l this] show ?thesis .
qed

text \<open>The instructions, one by one.\<close>

lemma l3rd_eq_Inr: "l3rd s a = Inr v \<longleftrightarrow> unat a < TOP \<and> v = data s a"
  by (auto simp: l3rd_simps)

lemma l3wr_chains:
  "l3wr s a v = Inr s' \<Longrightarrow> chains_end (data s) \<Longrightarrow> safe_cell (data s) a v \<Longrightarrow> chains_end (data s')"
  by (auto simp: l3wr_eq_Inr intro: write_safe)

lemma tag_STR_not_REF: "tag_of (cell STR_tag a) \<noteq> REF_tag"
proof -
  have "(STR_tag :: jbyte) \<noteq> REF_tag" by (simp add: STR_tag_def REF_tag_def)
  then show ?thesis by (simp only: tag_of_cell_STR not_False_eq_True)
qed

lemma STR_cell_plain: "safe_cell d x (cell STR_tag a)"
  by (rule safe_cell_plain) (rule tag_STR_not_REF)

text \<open>A fresh variable: the cell \<open>REF\<close> to \<open>h\<close> stored at \<open>h\<close>, and a copy of it stored anywhere.\<close>

lemma fresh_var_chains:
  assumes w: "l3wr s h (cell REF_tag h) = Inr s1" and c: "chains_end (data s)"
  shows "chains_end (data s1) \<and> data s1 h = cell REF_tag h \<and> unat h < TOP"
proof -
  from w have r: "unat h < TOP" and s1: "s1 = s\<lparr>data := (data s)(h := cell REF_tag h)\<rparr>"
    by (simp_all add: l3wr_eq_Inr)
  have "val_of (cell REF_tag h) = h" using r by (simp add: val_of_cell val_of_small)
  then have "safe_cell (data s) h (cell REF_tag h)" by (simp add: safe_cell_def)
  from l3wr_chains[OF w c this] s1 r show ?thesis by simp
qed

lemma var_copy_chains:
  assumes w: "l3wr s x (cell REF_tag h) = Inr s1" and c: "chains_end (data s)"
    and h: "data s h = cell REF_tag h" "unat h < TOP"
  shows "chains_end (data s1) \<and> data s1 h = cell REF_tag h"
proof -
  have v: "val_of (cell REF_tag h) = h" using h(2) by (simp add: val_of_cell val_of_small)
  have "safe_cell (data s) x (cell REF_tag h)"
    using h(2) _ v by (rule safe_cell_terminal) (simp add: h(1) v)
  from l3wr_chains[OF w c this] have "chains_end (data s1)" .
  moreover from w h(1) have "data s1 h = cell REF_tag h" by (auto simp: l3wr_eq_Inr)
  ultimately show ?thesis by simp
qed

lemma PUT_STRUC_chains:
  assumes st: "l3_PUT_STRUC code l s = Inr (l', s')" and c: "chains_end (data s)"
    and f: "\<And>f_n. jint_at code (l_ip l + 3) = Inr f_n \<Longrightarrow> tag_of f_n \<noteq> REF_tag"
  shows "chains_end (data s')"
proof -
  from st obtain xi f_n s1 s2 v where fn: "jint_at code (l_ip l + 3) = Inr f_n"
    and w1: "l3wr s (l_hp l) (cell STR_tag (l_hp l + 1)) = Inr s1"
    and w2: "l3wr s1 (l_hp l + 1) f_n = Inr s2"
    and r: "l3rd s2 (l_hp l) = Inr v"
    and w3: "l3wr s2 xi v = Inr s'"
    by (auto simp: l3_PUT_STRUC_def bindE_eq_Inr)
  from l3wr_chains[OF w1 c STR_cell_plain] have c1: "chains_end (data s1)" .
  from l3wr_chains[OF w2 c1 safe_cell_plain[OF f[OF fn]]] have c2: "chains_end (data s2)" .
  from r w2 w1 have "v = f_n \<or> v = cell STR_tag (l_hp l + 1)"
    by (auto simp: l3rd_eq_Inr l3wr_eq_Inr split: if_splits)
  then have "tag_of v \<noteq> REF_tag"
    using f[OF fn] tag_STR_not_REF[of "l_hp l + 1"] by auto
  from l3wr_chains[OF w3 c2 safe_cell_plain[OF this]] show ?thesis .
qed

lemma SET_VAR_chains:
  assumes st: "l3_SET_VAR code l s = Inr (l', s')" and c: "chains_end (data s)"
  shows "chains_end (data s')"
proof -
  from st obtain xi s1 v where w1: "l3wr s (l_hp l) (cell REF_tag (l_hp l)) = Inr s1"
    and r: "l3rd s1 (l_hp l) = Inr v" and w2: "l3wr s1 xi v = Inr s'"
    by (auto simp: l3_SET_VAR_def bindE_eq_Inr)
  from fresh_var_chains[OF w1 c] have c1: "chains_end (data s1)"
    and h: "data s1 (l_hp l) = cell REF_tag (l_hp l)" "unat (l_hp l) < TOP" by simp_all
  from r h have "v = cell REF_tag (l_hp l)" by (simp add: l3rd_eq_Inr)
  with w2 have "l3wr s1 xi (cell REF_tag (l_hp l)) = Inr s'" by simp
  from var_copy_chains[OF this c1 h] show ?thesis by simp
qed

lemma PUT_VAR_chains:
  assumes st: "l3_PUT_VAR code l s = Inr (l', s')" and c: "chains_end (data s)"
  shows "chains_end (data s')"
proof -
  from st obtain xi ai s1 v s2 w where w1: "l3wr s (l_hp l) (cell REF_tag (l_hp l)) = Inr s1"
    and r: "l3rd s1 (l_hp l) = Inr v" and w2: "l3wr s1 xi v = Inr s2"
    and r2: "l3rd s2 (l_hp l) = Inr w" and w3: "l3wr s2 (scast (ai::jbyte)) w = Inr s'"
    by (auto simp: l3_PUT_VAR_def bindE_eq_Inr)
  from fresh_var_chains[OF w1 c] have c1: "chains_end (data s1)"
    and h: "data s1 (l_hp l) = cell REF_tag (l_hp l)" "unat (l_hp l) < TOP" by simp_all
  from r h have "v = cell REF_tag (l_hp l)" by (simp add: l3rd_eq_Inr)
  with w2 have "l3wr s1 xi (cell REF_tag (l_hp l)) = Inr s2" by simp
  from var_copy_chains[OF this c1 h] have c2: "chains_end (data s2)"
    and h2: "data s2 (l_hp l) = cell REF_tag (l_hp l)" by simp_all
  from r2 h2 have "w = cell REF_tag (l_hp l)" by (simp add: l3rd_eq_Inr)
  with w3 have "l3wr s2 (scast ai) (cell REF_tag (l_hp l)) = Inr s'" by simp
  from var_copy_chains[OF this c2 h2 h(2)] show ?thesis by simp
qed

lemma SET_VAL_chains:
  assumes st: "l3_SET_VAL code l s = Inr (l', s')" and c: "chains_end (data s)"
    and f: "\<And>xi. xi_addr code l = Inr xi \<Longrightarrow> safe_cell (data s) (l_hp l) (data s xi)"
  shows "chains_end (data s')"
proof -
  from st obtain xi v where x: "xi_addr code l = Inr xi" and r: "l3rd s xi = Inr v"
    and w: "l3wr s (l_hp l) v = Inr s'"
    by (auto simp: l3_SET_VAL_def bindE_eq_Inr)
  from r have "v = data s xi" by (simp add: l3rd_eq_Inr)
  with f[OF x] have "safe_cell (data s) (l_hp l) v" by simp
  from l3wr_chains[OF w c this] show ?thesis .
qed

lemma UNIFY_VAR_chains:
  assumes st: "l3_UNIFY_VAR code l s = Inr (l', s')" and c: "chains_end (data s)"
    and f: "\<And>xi. \<not> l_writeMode l \<Longrightarrow> xi_addr code l = Inr xi \<Longrightarrow> safe_cell (data s) xi (data s (l_sp l))"
  shows "chains_end (data s')"
proof (cases "l_writeMode l")
  case False
  with st obtain xi v where x: "xi_addr code l = Inr xi" and r: "l3rd s (l_sp l) = Inr v"
    and w: "l3wr s xi v = Inr s'"
    by (auto simp: l3_UNIFY_VAR_def bindE_eq_Inr)
  from r have "v = data s (l_sp l)" by (simp add: l3rd_eq_Inr)
  with f[OF False x] have "safe_cell (data s) xi v" by simp
  from l3wr_chains[OF w c this] show ?thesis .
next
  case True
  with st obtain xi s1 v where w1: "l3wr s (l_hp l) (cell REF_tag (l_hp l)) = Inr s1"
    and r: "l3rd s1 (l_hp l) = Inr v" and w2: "l3wr s1 xi v = Inr s'"
    by (auto simp: l3_UNIFY_VAR_def bindE_eq_Inr)
  from fresh_var_chains[OF w1 c] have c1: "chains_end (data s1)"
    and h: "data s1 (l_hp l) = cell REF_tag (l_hp l)" "unat (l_hp l) < TOP" by simp_all
  from r h have "v = cell REF_tag (l_hp l)" by (simp add: l3rd_eq_Inr)
  with w2 have "l3wr s1 xi (cell REF_tag (l_hp l)) = Inr s'" by simp
  from var_copy_chains[OF this c1 h] show ?thesis by simp
qed

lemma UNIFY_VAL_chains:
  assumes st: "l3_UNIFY_VAL n code l s = Inr (l', s')" and c: "chains_end (data s)"
    and f: "\<And>xi. l_writeMode l \<Longrightarrow> xi_addr code l = Inr xi \<Longrightarrow> safe_cell (data s) (l_hp l) (data s xi)"
  shows "chains_end (data s')"
proof (cases "l_writeMode l")
  case False
  with st obtain xi r where "l3unify n s xi (l_sp l) = Inr (r, s')"
    by (auto simp: l3_UNIFY_VAL_def bindE_eq_Inr)
  from l3unify_chains[OF this c] show ?thesis .
next
  case True
  with st obtain xi v where x: "xi_addr code l = Inr xi" and r: "l3rd s xi = Inr v"
    and w: "l3wr s (l_hp l) v = Inr s'"
    by (auto simp: l3_UNIFY_VAL_def bindE_eq_Inr)
  from r have "v = data s xi" by (simp add: l3rd_eq_Inr)
  with f[OF True x] have "safe_cell (data s) (l_hp l) v" by simp
  from l3wr_chains[OF w c this] show ?thesis .
qed

lemma PUT_VAL_chains:
  assumes st: "l3_PUT_VAL code l s = Inr (l', s')" and c: "chains_end (data s)"
    and f: "\<And>xi ai. xi_addr code l = Inr xi \<Longrightarrow> code_at code (l_ip l + 3) = Inr ai \<Longrightarrow>
              safe_cell (data s) (scast ai) (data s xi)"
  shows "chains_end (data s')"
proof -
  from st obtain xi ai v where x: "xi_addr code l = Inr xi" and a: "code_at code (l_ip l + 3) = Inr ai"
    and r: "l3rd s xi = Inr v" and w: "l3wr s (scast ai) v = Inr s'"
    by (auto simp: l3_PUT_VAL_def bindE_eq_Inr)
  from r have "v = data s xi" by (simp add: l3rd_eq_Inr)
  with f[OF x a] have "safe_cell (data s) (scast ai) v" by simp
  from l3wr_chains[OF w c this] show ?thesis .
qed

lemma GET_VAR_chains:
  assumes st: "l3_GET_VAR code l s = Inr (l', s')" and c: "chains_end (data s)"
    and f: "\<And>xi ai. xi_addr code l = Inr xi \<Longrightarrow> code_at code (l_ip l + 3) = Inr ai \<Longrightarrow>
              safe_cell (data s) xi (data s (scast ai))"
  shows "chains_end (data s')"
proof -
  from st obtain xi ai v where x: "xi_addr code l = Inr xi" and a: "code_at code (l_ip l + 3) = Inr ai"
    and r: "l3rd s (scast ai) = Inr v" and w: "l3wr s xi v = Inr s'"
    by (auto simp: l3_GET_VAR_def bindE_eq_Inr)
  from r have "v = data s (scast ai)" by (simp add: l3rd_eq_Inr)
  with f[OF x a] have "safe_cell (data s) xi v" by simp
  from l3wr_chains[OF w c this] show ?thesis .
qed

lemma GET_VAL_chains:
  assumes st: "l3_GET_VAL n code l s = Inr (l', s')" and c: "chains_end (data s)"
  shows "chains_end (data s')"
proof -
  from st obtain xi ai r where "l3unify n s xi (scast (ai::jbyte)) = Inr (r, s')"
    by (auto simp: l3_GET_VAL_def bindE_eq_Inr)
  from l3unify_chains[OF this c] show ?thesis .
qed

lemma GET_STRUC_chains:
  assumes st: "l3_GET_STRUC n code l s = Inr (l', s')" and c: "chains_end (data s)"
    and f: "\<And>f_n. jint_at code (l_ip l + 3) = Inr f_n \<Longrightarrow> tag_of f_n \<noteq> REF_tag"
  shows "chains_end (data s')"
proof -
  from st obtain xi f_n addr s1 where fn: "jint_at code (l_ip l + 3) = Inr f_n"
    and d: "l3deref n s xi = Inr (addr, s1)"
    and rest: "(if derefTag s1 = REF_tag then
       bindE (l3wr s1 (l_hp l) (cell STR_tag (l_hp l + 1))) (\<lambda>s2.
       bindE (l3wr s2 (l_hp l + 1) f_n) (\<lambda>s3.
       bindE (l3wr s3 addr (cell REF_tag (l_hp l))) (\<lambda>s4.
         Inr (l\<lparr>l_hp := l_hp l + 2, l_writeMode := True, l_ip := l_ip l + 7\<rparr>, s4))))
     else if derefTag s1 = STR_tag then
       bindE (l3rd s1 (derefVal s1)) (\<lambda>v.
         if v = f_n then Inr (l\<lparr>l_sp := derefVal s1 + 1, l_writeMode := False, l_ip := l_ip l + 7\<rparr>, s1)
         else Inr (l\<lparr>l_failed := True, l_ip := l_ip l + 7\<rparr>, s1))
     else Inr (l\<lparr>l_ip := l_ip l + 7\<rparr>, s1)) = Inr (l', s')"
    by (auto simp: l3_GET_STRUC_def bindE_eq_Inr Let_def)
  from l3deref_eq[OF d] have d1: "data s1 = data s" by simp
  with c have c1: "chains_end (data s1)" by simp
  show ?thesis
  proof (cases "derefTag s1 = REF_tag")
    case False
    with rest have "s' = s1" by (auto simp: bindE_eq_Inr split: if_splits)
    with c1 show ?thesis by simp
  next
    case True
    with rest obtain s2 s3 where w1: "l3wr s1 (l_hp l) (cell STR_tag (l_hp l + 1)) = Inr s2"
      and w2: "l3wr s2 (l_hp l + 1) f_n = Inr s3"
      and w3: "l3wr s3 addr (cell REF_tag (l_hp l)) = Inr s'"
      by (auto simp: bindE_eq_Inr)
    from l3wr_chains[OF w1 c1 STR_cell_plain] have c2: "chains_end (data s2)" .
    from l3wr_chains[OF w2 c2 safe_cell_plain[OF f[OF fn]]] have c3: "chains_end (data s3)" .
    from w1 have r: "unat (l_hp l) < TOP" by (simp add: l3wr_eq_Inr)
    from w1 w2 have "data s3 (l_hp l) = f_n \<or> data s3 (l_hp l) = cell STR_tag (l_hp l + 1)"
      by (auto simp: l3wr_eq_Inr)
    then have t: "tag_of (data s3 (l_hp l)) \<noteq> REF_tag"
      using f[OF fn] tag_STR_not_REF[of "l_hp l + 1"] by auto
    have v: "val_of (cell REF_tag (l_hp l)) = l_hp l" using r by (simp add: val_of_cell val_of_small)
    have "safe_cell (data s3) addr (cell REF_tag (l_hp l))"
      using r _ v by (rule safe_cell_terminal) (simp add: t)
    from l3wr_chains[OF w3 c3 this] show ?thesis .
  qed
qed

lemma ALLOCATE_chains:
  assumes st: "l3_ALLOCATE code l s = Inr (l', s')" and c: "chains_end (data s)"
    and f: "tag_of (l_ep l) \<noteq> REF_tag" "tag_of (l_cp l) \<noteq> REF_tag"
  shows "chains_end (data s')"
proof -
  from st obtain b s1 s2 where w1: "l3wr s (l_esp l) (l_ep l) = Inr s1"
    and w2: "l3wr s1 (l_esp l + 1) (l_cp l) = Inr s2"
    and w3: "l3wr s2 (l_esp l + 2) (scast (b::jbyte)) = Inr s'"
    by (auto simp: l3_ALLOCATE_def bindE_eq_Inr Let_def)
  from l3wr_chains[OF w1 c safe_cell_plain[OF f(1)]] have c1: "chains_end (data s1)" .
  from l3wr_chains[OF w2 c1 safe_cell_plain[OF f(2)]] have c2: "chains_end (data s2)" .
  from l3wr_chains[OF w3 c2 safe_cell_plain[OF tag_of_scast]] show ?thesis .
qed

lemma l3_step_chains:
  assumes st: "l3_step n code l s = Inr (l', s')" and ca: "careful code l s" and c: "chains_end (data s)"
  shows "chains_end (data s')"
proof -
  from st obtain instruction where i: "code_at code (l_ip l) = Inr instruction"
    by (auto simp: l3_step_def bindE_eq_Inr)
  note ca' = ca[unfolded careful_def i, simplified]
  consider "instruction = PUT_STRUC" | "instruction = SET_VAR" | "instruction = SET_VAL"
    | "instruction = GET_STRUC" | "instruction = UNIFY_VAR" | "instruction = UNIFY_VAL"
    | "instruction = PUT_VAR" | "instruction = PUT_VAL" | "instruction = GET_VAR"
    | "instruction = GET_VAL" | "instruction = ALLOCATE"
    | "instruction \<notin> {PUT_STRUC, SET_VAR, SET_VAL, GET_STRUC, UNIFY_VAR, UNIFY_VAL, PUT_VAR, PUT_VAL,
                        GET_VAR, GET_VAL, ALLOCATE}"
    by blast
  then show ?thesis
  proof cases
    case 1
    with st i have r: "l3_PUT_STRUC code l s = Inr (l', s')" by (simp add: l3_step_def)
    from ca' 1 have "\<And>f_n. jint_at code (l_ip l + 3) = Inr f_n \<Longrightarrow> tag_of f_n \<noteq> REF_tag" by simp
    from PUT_STRUC_chains[OF r c this] show ?thesis .
  next
    case 2
    with st i have r: "l3_SET_VAR code l s = Inr (l', s')" by (simp add: l3_step_def opcode_defs)
    from SET_VAR_chains[OF r c] show ?thesis .
  next
    case 3
    with st i have r: "l3_SET_VAL code l s = Inr (l', s')" by (simp add: l3_step_def opcode_defs)
    from ca' 3 have "\<And>xi. xi_addr code l = Inr xi \<Longrightarrow> safe_cell (data s) (l_hp l) (data s xi)"
      by (simp add: opcode_defs)
    from SET_VAL_chains[OF r c this] show ?thesis .
  next
    case 4
    with st i have r: "l3_GET_STRUC n code l s = Inr (l', s')" by (simp add: l3_step_def opcode_defs)
    from ca' 4 have "\<And>f_n. jint_at code (l_ip l + 3) = Inr f_n \<Longrightarrow> tag_of f_n \<noteq> REF_tag" by simp
    from GET_STRUC_chains[OF r c this] show ?thesis .
  next
    case 5
    with st i have r: "l3_UNIFY_VAR code l s = Inr (l', s')" by (simp add: l3_step_def opcode_defs)
    from ca' 5 have "\<And>xi. \<not> l_writeMode l \<Longrightarrow> xi_addr code l = Inr xi \<Longrightarrow>
        safe_cell (data s) xi (data s (l_sp l))"
      by (simp add: opcode_defs)
    from UNIFY_VAR_chains[OF r c this] show ?thesis .
  next
    case 6
    with st i have r: "l3_UNIFY_VAL n code l s = Inr (l', s')" by (simp add: l3_step_def opcode_defs)
    from ca' 6 have "\<And>xi. l_writeMode l \<Longrightarrow> xi_addr code l = Inr xi \<Longrightarrow>
        safe_cell (data s) (l_hp l) (data s xi)"
      by (simp add: opcode_defs)
    from UNIFY_VAL_chains[OF r c this] show ?thesis .
  next
    case 7
    with st i have r: "l3_PUT_VAR code l s = Inr (l', s')" by (simp add: l3_step_def opcode_defs)
    from PUT_VAR_chains[OF r c] show ?thesis .
  next
    case 8
    with st i have r: "l3_PUT_VAL code l s = Inr (l', s')" by (simp add: l3_step_def opcode_defs)
    from ca' 8 have "\<And>xi ai. xi_addr code l = Inr xi \<Longrightarrow> code_at code (l_ip l + 3) = Inr ai \<Longrightarrow>
              safe_cell (data s) (scast ai) (data s xi)"
      by (simp add: opcode_defs)
    from PUT_VAL_chains[OF r c this] show ?thesis .
  next
    case 9
    with st i have r: "l3_GET_VAR code l s = Inr (l', s')" by (simp add: l3_step_def opcode_defs)
    from ca' 9 have "\<And>xi ai. xi_addr code l = Inr xi \<Longrightarrow> code_at code (l_ip l + 3) = Inr ai \<Longrightarrow>
              safe_cell (data s) xi (data s (scast ai))"
      by (simp add: opcode_defs)
    from GET_VAR_chains[OF r c this] show ?thesis .
  next
    case 10
    with st i have r: "l3_GET_VAL n code l s = Inr (l', s')" by (simp add: l3_step_def opcode_defs)
    from GET_VAL_chains[OF r c] show ?thesis .
  next
    case 11
    with st i have r: "l3_ALLOCATE code l s = Inr (l', s')" by (simp add: l3_step_def opcode_defs)
    from ca' 11 have "tag_of (l_ep l) \<noteq> REF_tag" "tag_of (l_cp l) \<noteq> REF_tag"
      by (simp_all add: opcode_defs)
    from ALLOCATE_chains[OF r c this] show ?thesis .
  next
    case 12
    with st i have "s' = s"
      by (auto simp: l3_step_def l3_CALL_def l3_PROCEED_def l3_DEALLOCATE_def bindE_eq_Inr
          split: if_splits)
    with c show ?thesis by simp
  qed
qed

lemma reset_chains_end: "chains_end (data nativeReset)"
  unfolding chains_end_def
proof (intro allI impI)
  fix a :: jint
  assume "unat a < TOP"
  then have "derefs_to TOP (data nativeReset) a a"
    by (auto intro!: derefs_to.stop simp: nativeReset_def tag_of_def REF_tag_def)
  then show "\<exists>b. derefs_to TOP (data nativeReset) a b" by blast
qed

lemma reaches_chains_end: "reaches l s \<Longrightarrow> chains_end (data s)"
proof (induction rule: reaches.induct)
  case (first code offset)
  show ?case using reset_chains_end by (simp add: l3_entry_def l3uClear_def)
next
  case (turn l s code n l' s')
  from l3_step_chains[OF turn.hyps(5,4) turn.IH] show ?case .
next
  case (again l s s' code offset)
  then show ?case by (simp add: l3_entry_def l3uClear_def)
qed

text \<open>
  C9, amended: \<open>l3deref\<close> returns at every address of the data area in every configuration
  that is reached from reset by careful turns of the decode loop, over any number of calls
  of \<open>execute\<close> on any code. A turn is careful when the cell that a copying instruction
  stores (\<open>SET_VAL\<close>, \<open>UNIFY_VAL\<close> in write mode, \<open>UNIFY_VAR\<close> in read mode, \<open>PUT_VAL\<close>,
  \<open>GET_VAR\<close>) is not a \<open>REF\<close> cell whose chain leads to the cell it is stored in, when
  the functor word of \<open>PUT_STRUC\<close> and \<open>GET_STRUC\<close> has not the tag byte \<open>REF\<close>, and when
  \<open>ALLOCATE\<close> saves no \<open>ep\<close> or \<open>cp\<close> with the tag byte \<open>REF\<close>. What \<open>l3unify\<close> stores
  (its bindings and its PDL entries), the binding of \<open>GET_STRUC\<close> and the fresh variables
  of \<open>SET_VAR\<close>, \<open>PUT_VAR\<close> and \<open>UNIFY_VAR\<close> need no condition. In such a configuration
  the walk along the \<open>REF\<close> cells from any address of the data area stops at a cell that
  is not \<open>REF\<close> or is \<open>REF\<close> to itself: no chain comes back to a cell it has left.
\<close>

theorem deref_returns_on_careful_runs:
  assumes "reaches l s" and "unat a < TOP"
  shows "l3deref_returns s a \<and> (\<exists>b. derefs_to TOP (data s) a b)"
  using reaches_chains_end[OF assms(1)] assms(2)
  by (simp add: chains_end_def l3deref_returns_iff)

theorem deref_returns_on_careful_runs_witness:
  "l3deref_returns
     (nativeReset\<lparr>derefTag := REF_tag, derefVal := 10,
        data := (data nativeReset)(0 := cell REF_tag 10, 21009 := 0, 21008 := 1,
                                   10 := cell REF_tag 1, 2 := cell REF_tag 10)\<rparr>) 2"
proof -
  let ?code = "[SET_VAR, REG_ADDR, 0, GET_VAL, REG_ADDR, 0, 1, PUT_VAL, REG_ADDR, 0, 2]"
  let ?l0 = "fst (l3_entry nativeReset ?code 0)"
  let ?s0 = "snd (l3_entry nativeReset ?code 0)"
  let ?l1 = "?l0\<lparr>l_hp := 11, l_ip := 3\<rparr>"
  let ?s1 = "nativeReset\<lparr>data := (data nativeReset)(10 := cell REF_tag 10, 0 := cell REF_tag 10)\<rparr>"
  let ?l2 = "?l0\<lparr>l_hp := 11, l_ip := 7\<rparr>"
  let ?s2 = "nativeReset\<lparr>derefTag := REF_tag, derefVal := 10,
       data := (data nativeReset)(0 := cell REF_tag 10, 21009 := 0, 21008 := 1, 10 := cell REF_tag 1)\<rparr>"
  let ?l3 = "?l0\<lparr>l_hp := 11, l_ip := 11\<rparr>"
  let ?s3 = "nativeReset\<lparr>derefTag := REF_tag, derefVal := 10,
       data := (data nativeReset)(0 := cell REF_tag 10, 21009 := 0, 21008 := 1, 10 := cell REF_tag 1,
                                  2 := cell REF_tag 10)\<rparr>"
  have r0: "reaches ?l0 ?s0" by (rule reaches.first)
  have st1: "l3_step 0 ?code ?l0 ?s0 = Inr (?l1, ?s1)"
    by (simp add: l3_eval cong: bindE_cong)
  have c1: "careful ?code ?l0 ?s0"
    by (simp add: careful_def l3_entry_def code_at_def opcode_defs)
  have r1: "reaches ?l1 ?s1"
    by (rule reaches.turn[OF r0 _ _ c1 st1]) (simp_all add: l3_entry_def)
  have st2: "l3_step 3 ?code ?l1 ?s1 = Inr (?l2, ?s2)"
    by (simp add: l3_eval cong: bindE_cong)
  have c2: "careful ?code ?l1 ?s1"
    by (simp add: careful_def l3_entry_def code_at_def opcode_defs)
  have r2: "reaches ?l2 ?s2"
    by (rule reaches.turn[OF r1 _ _ c2 st2]) (simp_all add: l3_entry_def)
  have st3: "l3_step 0 ?code ?l2 ?s2 = Inr (?l3, ?s3)"
    by (simp add: l3_eval cong: bindE_cong)
  have v: "val_of (data ?s2 10) = 1" by (simp add: val_of_cell)
  have "avoids TOP (data ?s2) 2 1"
    by (rule avoids.stop) (simp_all add: TOP_val nativeReset_def tag_of_def REF_tag_def)
  then have "avoids TOP (data ?s2) 2 (val_of (data ?s2 10))" by (simp only: v)
  then have "avoids TOP (data ?s2) 2 10"
    by (rule avoids.hop[rotated -1]) (simp_all add: TOP_val val_of_cell tag_of_cell_REF)
  then have c3: "careful ?code ?l2 ?s2"
    by (simp add: careful_def l3_entry_def code_at_def opcode_defs xi_addr_def REG_ADDR_def STACK_ADDR_def
        safe_cell_def val_of_cell)
  have r3: "reaches ?l3 ?s3"
    by (rule reaches.turn[OF r2 _ _ c3 st3]) (simp_all add: l3_entry_def)
  from deref_returns_on_careful_runs[OF r3, of 2] show ?thesis by (simp add: TOP_val)
qed

text \<open>
  The conditions are needed. The second turn of \<open>cycle_program\<close> leaves the state below,
  and the copy that its third turn makes (\<open>PUT_VAL X0, A1\<close>, where the run above has
  \<open>PUT_VAL X0, A2\<close>) is not a careful one.
\<close>

lemma cycle_program_steps:
  "l3_step 3 cycle_program
       ((fst (l3_entry nativeReset cycle_program 0))\<lparr>l_hp := 11, l_ip := 3\<rparr>)
       (nativeReset\<lparr>data := (data nativeReset)(10 := cell REF_tag 10, 0 := cell REF_tag 10)\<rparr>)
   = Inr ((fst (l3_entry nativeReset cycle_program 0))\<lparr>l_hp := 11, l_ip := 7\<rparr>,
       (nativeReset\<lparr>derefTag := REF_tag, derefVal := 10,
          data := (data nativeReset)(0 := cell REF_tag 10, 21009 := 0, 21008 := 1, 10 := cell REF_tag 1)\<rparr>))"
  by (simp add: cycle_program_def l3_eval cong: bindE_cong)

lemma cycle_program_copy_not_careful:
  "\<not> careful cycle_program
       ((fst (l3_entry nativeReset cycle_program 0))\<lparr>l_hp := 11, l_ip := 7\<rparr>)
       (nativeReset\<lparr>derefTag := REF_tag, derefVal := 10,
          data := (data nativeReset)(0 := cell REF_tag 10, 21009 := 0, 21008 := 1, 10 := cell REF_tag 1)\<rparr>)"
proof -
  let ?d = "(data nativeReset)(0 := cell REF_tag 10, 21009 := 0, 21008 := 1, 10 := cell REF_tag 1)"
  have n1: "\<not> avoids TOP ?d 1 1" by (auto elim: avoids.cases)
  have "\<not> avoids TOP ?d 1 10"
  proof
    assume "avoids TOP ?d 1 10"
    then show False
    proof (cases rule: avoids.cases)
      case stop
      then show False by (simp add: tag_of_cell_REF val_of_cell)
    next
      case hop
      with n1 show False by (simp add: val_of_cell)
    qed
  qed
  then show ?thesis
    by (simp add: careful_def cycle_program_def l3_entry_def code_at_def opcode_defs xi_addr_def
        REG_ADDR_def STACK_ADDR_def safe_cell_def val_of_cell tag_of_cell_REF)
qed

lemma ref_pair_never_ends:
  assumes p: "d p = cell REF_tag q" and q: "d q = cell REF_tag p"
    and r: "unat p < TOP" "unat q < TOP" and ne: "p \<noteq> q"
  shows "deref_loop n TOP d a REF_tag p = Inl OutOfFuel \<and>
         deref_loop n TOP d a' REF_tag q = Inl OutOfFuel"
proof (induction n arbitrary: a a')
  case 0
  show ?case by simp
next
  case (Suc n)
  have v: "val_of (cell REF_tag p) = p" "val_of (cell REF_tag q) = q"
    using r by (simp_all add: val_of_cell val_of_small)
  from ne have ne': "q \<noteq> p" by simp
  show ?case using Suc.IH[of q p] r ne ne'
    by (simp add: rd_def p q v tag_of_cell_REF)
qed

text \<open>
  A functor word with the tag byte \<open>REF\<close> is followed by \<open>l3deref\<close> like a reference:
  two \<open>PUT_STRUC\<close> instructions with the functor words \<open>0x0100000D\<close> and \<open>0x0100000B\<close>
  leave cell 11 \<open>REF\<close> to 13 and cell 13 \<open>REF\<close> to 11.
\<close>

lemma functor_word_cycle:
  "execute 3 nativeReset [PUT_STRUC, REG_ADDR, 0, 13, 0, 0, 1, PUT_STRUC, REG_ADDR, 1, 11, 0, 0, 1] 0 =
     Inr (True, nativeReset\<lparr>cp := 14, hp := 14,
            data := (data nativeReset)(10 := cell STR_tag 11, 11 := cell REF_tag 13, 0 := cell STR_tag 11,
                                       12 := cell STR_tag 13, 13 := cell REF_tag 11, 1 := cell STR_tag 13)\<rparr>) \<and>
   \<not> l3deref_returns (nativeReset\<lparr>cp := 14, hp := 14,
            data := (data nativeReset)(10 := cell STR_tag 11, 11 := cell REF_tag 13, 0 := cell STR_tag 11,
                                       12 := cell STR_tag 13, 13 := cell REF_tag 11, 1 := cell STR_tag 13)\<rparr>) 11"
proof
  show "execute 3 nativeReset [PUT_STRUC, REG_ADDR, 0, 13, 0, 0, 1, PUT_STRUC, REG_ADDR, 1, 11, 0, 0, 1] 0 =
     Inr (True, nativeReset\<lparr>cp := 14, hp := 14,
            data := (data nativeReset)(10 := cell STR_tag 11, 11 := cell REF_tag 13, 0 := cell STR_tag 11,
                                       12 := cell STR_tag 13, 13 := cell REF_tag 11, 1 := cell STR_tag 13)\<rparr>)"
    by (simp add: l3_eval le32_def cong: bindE_cong)
next
  let ?d = "(data nativeReset)(10 := cell STR_tag 11, 11 := cell REF_tag 13, 0 := cell STR_tag 11,
                               12 := cell STR_tag 13, 13 := cell REF_tag 11, 1 := cell STR_tag 13)"
  let ?s = "nativeReset\<lparr>cp := 14, hp := 14, data := ?d\<rparr>"
  have "l3deref n ?s 11 = Inl OutOfFuel" for n
  proof -
    have "deref_loop n TOP ?d 11 REF_tag 13 = Inl OutOfFuel"
      using ref_pair_never_ends[of ?d 13 11 n 11 11] by (simp add: TOP_val)
    then show ?thesis
      by (simp add: l3deref_def deref_on_def rd_def TOP_val tag_of_cell_REF val_of_cell)
  qed
  then show "\<not> l3deref_returns ?s 11" by (simp add: l3deref_returns_def)
qed

section \<open>The PDL at the start of execute\<close>

lemma l3uPush_up:
  assumes "l3uPush v s = Inr s'"
  shows "unat (up s') + 1 = unat (up s)"
proof -
  from assms have r: "unat (up s - 1) < TOP" and s': "up s' = up s - 1"
    by (auto simp: l3uPush_def wr_def bindE_eq_Inr split: if_splits)
  from r have "unat ((up s - 1) + 1) = unat (up s - 1) + 1"
    by (rule unat_succ_TOP)
  moreover have "(up s - 1) + 1 = up s" by simp
  ultimately show ?thesis using s' by simp
qed

lemma l3uPop_up:
  assumes "l3uPop s = Inr (v, s')"
  shows "unat (up s) < TOP \<and> unat (up s') = unat (up s) + 1"
proof -
  from assms have r: "unat (up s) < TOP" and s': "up s' = up s + 1"
    by (auto simp: l3uPop_def rd_def bindE_eq_Inr split: if_splits)
  from r have "unat (up s + 1) = unat (up s) + 1" by (rule unat_succ_TOP)
  with r s' show ?thesis by simp
qed

lemma l3push_args_up:
  "l3push_args v1 v2 is s = Inr s' \<Longrightarrow> unat (up s') + 2 * length is = unat (up s)"
proof (induction "is" arbitrary: s)
  case Nil
  then show ?case by simp
next
  case (Cons i "is")
  from Cons.prems obtain s1 s2 where p1: "l3uPush (v1 + of_nat i) s = Inr s1"
    and p2: "l3uPush (v2 + of_nat i) s1 = Inr s2" and r: "l3push_args v1 v2 is s2 = Inr s'"
    by (auto simp: bindE_eq_Inr)
  from Cons.IH[OF r] l3uPush_up[OF p1] l3uPush_up[OF p2] show ?case by simp
qed

lemma l3unify_pair_up:
  assumes "l3unify_pair d1 t1 v1 d2 t2 v2 s = Inr (f, s')"
  shows "\<exists>k. unat (up s') + 2 * k = unat (up s)"
proof -
  have "up s' = up s \<or> (\<exists>is. l3push_args v1 v2 is s = Inr s')"
    using assms
    by (auto simp: l3unify_pair_def bindE_eq_Inr wr_def Let_def split: if_splits)
  then show ?thesis
  proof
    assume "up s' = up s"
    then have "unat (up s') + 2 * 0 = unat (up s)" by simp
    then show ?thesis by blast
  next
    assume "\<exists>is. l3push_args v1 v2 is s = Inr s'"
    then obtain "is" where "l3push_args v1 v2 is s = Inr s'" by blast
    from l3push_args_up[OF this] show ?thesis by blast
  qed
qed

lemma l3unify_body_inv:
  assumes b: "l3unify_body n s = Inr (f, s')" and i: "pdl_inv s"
  shows "pdl_inv s'"
proof -
  from b obtain x1 s1 d1 s2 x2 s3 d2 s4 where
    p1: "l3uPop s = Inr (x1, s1)" and q1: "l3deref n s1 x1 = Inr (d1, s2)" and
    p2: "l3uPop s2 = Inr (x2, s3)" and q2: "l3deref n s3 x2 = Inr (d2, s4)" and
    rest: "l3unify_pair d1 (derefTag s2) (derefVal s2) d2 (derefTag s4) (derefVal s4) s4 = Inr (f, s')"
    by (auto simp: l3unify_body_def bindE_eq_Inr Let_def)
  from l3uPop_up[OF p1] l3deref_up[OF q1] l3uPop_up[OF p2] l3deref_up[OF q2]
  have u4: "unat (up s4) = unat (up s) + 2" "unat (up s4) \<le> TOP" by auto
  from l3unify_pair_up[OF rest] obtain k where k: "unat (up s') + 2 * k = unat (up s4)" by blast
  from i have ev: "even (unat (up s))" by (simp add: pdl_inv_def)
  from k u4(1) ev have "even (unat (up s') + 2 * k)" by simp
  then have "even (unat (up s'))" by simp
  moreover from k u4(2) have "unat (up s') \<le> TOP" by simp
  ultimately show ?thesis by (simp add: pdl_inv_def)
qed

lemma l3unify_loop_empty:
  "l3unify_loop n s = Inr (False, s') \<Longrightarrow> pdl_inv s \<Longrightarrow> up s' = of_nat TOP"
proof (induction n arbitrary: s)
  case 0
  then show ?case by simp
next
  case (Suc n)
  show ?case
  proof (cases "l3uEmpty s")
    case True
    with Suc.prems(1) have "s' = s" by simp
    from Suc.prems(2) have le: "unat (up s) \<le> TOP" by (simp add: pdl_inv_def)
    then have "sint (up s) = int (unat (up s))" by (intro sint_eq_unat) (simp add: TOP_val)
    with True have "int TOP \<le> int (unat (up s))" by (simp add: l3uEmpty_def)
    then have "TOP \<le> unat (up s)" by (simp only: of_nat_le_iff)
    with le have "unat (up s) = TOP" by simp
    then have "of_nat (unat (up s)) = (of_nat TOP :: jint)" by simp
    then have "up s = of_nat TOP" by simp
    with \<open>s' = s\<close> show ?thesis by simp
  next
    case False
    with Suc.prems(1) obtain s1 where b: "l3unify_body n s = Inr (False, s1)"
      and r: "l3unify_loop n s1 = Inr (False, s')"
      by (auto simp: bindE_eq_Inr split: if_splits)
    from l3unify_body_inv[OF b Suc.prems(2)] Suc.IH[OF r] show ?thesis by simp
  qed
qed

lemma l3unify_leaves_pdl_empty:
  assumes "l3unify n s a1 a2 = Inr (True, s')" and "up s = of_nat TOP"
  shows "up s' = of_nat TOP"
proof -
  from assms(1) obtain s1 s2 where p1: "l3uPush a1 s = Inr s1" and p2: "l3uPush a2 s1 = Inr s2"
    and l: "l3unify_loop n s2 = Inr (False, s')"
    by (auto simp: l3unify_def bindE_eq_Inr)
  from l3uPush_up[OF p1] l3uPush_up[OF p2] assms(2) have "unat (up s2) + 2 = TOP"
    by (simp add: TOP_val)
  then have "pdl_inv s2" by (auto simp: pdl_inv_def TOP_val)
  with l show ?thesis by (rule l3unify_loop_empty)
qed

lemma l3_step_keeps_pdl_empty:
  assumes st: "l3_step n code l s = Inr (l', s')" and e: "up s = of_nat TOP" and f: "\<not> l_failed l'"
  shows "up s' = of_nat TOP"
proof -
  from st obtain instruction where i: "code_at code (l_ip l) = Inr instruction"
    by (auto simp: l3_step_def bindE_eq_Inr)
  consider (unify_val) "instruction = UNIFY_VAL" | (get_val) "instruction = GET_VAL"
    | (get_struc) "instruction = GET_STRUC"
    | (other) "instruction \<noteq> UNIFY_VAL" "instruction \<noteq> GET_VAL" "instruction \<noteq> GET_STRUC"
    by blast
  then show ?thesis
  proof cases
    case unify_val
    with st i have r: "l3_UNIFY_VAL n code l s = Inr (l', s')"
      by (simp add: l3_step_def opcode_defs)
    show ?thesis
    proof (cases "l_writeMode l")
      case True
      with r have "up s' = up s"
        by (auto simp: l3_UNIFY_VAL_def bindE_eq_Inr l3wr_eq_Inr)
      with e show ?thesis by simp
    next
      case False
      with r obtain xi b where "l3unify n s xi (l_sp l) = Inr (b, s')" and "l_failed l' = (\<not> b)"
        by (auto simp: l3_UNIFY_VAL_def bindE_eq_Inr)
      with f have "l3unify n s xi (l_sp l) = Inr (True, s')" by simp
      then show ?thesis using e by (rule l3unify_leaves_pdl_empty)
    qed
  next
    case get_val
    with st i have r: "l3_GET_VAL n code l s = Inr (l', s')"
      by (simp add: l3_step_def opcode_defs)
    then obtain xi ai b where "l3unify n s xi (scast (ai::jbyte)) = Inr (b, s')" and "l_failed l' = (\<not> b)"
      by (auto simp: l3_GET_VAL_def bindE_eq_Inr)
    with f have "l3unify n s xi (scast ai) = Inr (True, s')" by simp
    then show ?thesis using e by (rule l3unify_leaves_pdl_empty)
  next
    case get_struc
    with st i have r: "l3_GET_STRUC n code l s = Inr (l', s')"
      by (simp add: l3_step_def opcode_defs)
    then obtain xi addr s1 where d: "l3deref n s xi = Inr (addr, s1)" and "up s' = up s1"
      by (auto simp: l3_GET_STRUC_def bindE_eq_Inr l3wr_eq_Inr Let_def split: if_splits)
    with l3deref_up[OF d] e show ?thesis by simp
  next
    case other
    with st i have "up s' = up s"
      by (auto simp: l3_step_def l3_PUT_STRUC_def l3_SET_VAR_def l3_SET_VAL_def l3_UNIFY_VAR_def
          l3_PUT_VAR_def l3_PUT_VAL_def l3_GET_VAR_def l3_CALL_def l3_PROCEED_def l3_ALLOCATE_def
          l3_DEALLOCATE_def bindE_eq_Inr l3wr_eq_Inr Let_def split: if_splits)
    with e show ?thesis by simp
  qed
qed

text \<open>
  \<open>execute\<close> empties the PDL before it decodes any instruction: the decode loop is
  entered with \<open>up = TOP\<close>, and the result of \<open>execute\<close> is the same whatever value \<open>up\<close>
  had when it was called. Every turn of the decode loop that starts with the PDL empty and
  does not fail leaves it empty, so each unification of the call starts from the empty
  PDL.
\<close>

lemma execute_enters_with_empty_pdl:
  "up (snd (l3_entry s code offset)) = of_nat TOP \<and>
   execute n (s\<lparr>up := u\<rparr>) code offset = execute n s code offset \<and>
   (l3_step n code l st = Inr (l', st') \<and> up st = of_nat TOP \<and> \<not> l_failed l' \<longrightarrow>
      up st' = of_nat TOP)"
proof (intro conjI impI)
  show "up (snd (l3_entry s code offset)) = of_nat TOP"
    by (simp add: l3_entry_def l3uClear_def)
  show "execute n (s\<lparr>up := u\<rparr>) code offset = execute n s code offset"
    by (simp add: execute_def l3_entry_def l3uClear_def)
  show "up st' = of_nat TOP"
    if "l3_step n code l st = Inr (l', st') \<and> up st = of_nat TOP \<and> \<not> l_failed l'"
    using that l3_step_keeps_pdl_empty by blast
qed

text \<open>
  The interpreter kept out of the PDL region, run on a state, is matched step by step by
  the interpreter run on a state whose data area agrees.
\<close>

lemma PDL_BASE_val: "PDL_BASE = 20010"
  by (simp add: PDL_BASE_def REG_SIZE_def HEAP_SIZE_def STACK_SIZE_def)

lemma sim_Inr: "agree D s d \<Longrightarrow> sim D (Inr (x, s)) (Inr (x, s\<lparr>data := d\<rparr>))"
  unfolding sim_def by blast

lemma simS_Inr: "agree D s d \<Longrightarrow> simS D (Inr s) (Inr (s\<lparr>data := d\<rparr>))"
  unfolding simS_def by blast

lemma simI:
  "m = Inr (x, s') \<Longrightarrow> m' = Inr (x, s'\<lparr>data := d'\<rparr>) \<Longrightarrow> agree D s' d' \<Longrightarrow> sim D m m'"
  unfolding sim_def by blast

lemma simSI:
  "m = Inr s' \<Longrightarrow> m' = Inr (s'\<lparr>data := d'\<rparr>) \<Longrightarrow> agree D s' d' \<Longrightarrow> simS D m m'"
  unfolding simS_def by blast

lemma sim_bind:
  assumes "sim D m m'" and "\<And>x s' d'. agree D s' d' \<Longrightarrow> sim D (f x s') (f' x (s'\<lparr>data := d'\<rparr>))"
  shows "sim D (bindE m (\<lambda>(x, s). f x s)) (bindE m' (\<lambda>(x, s). f' x s))"
  using assms unfolding sim_def by (fastforce simp: bindE_eq_Inr)

lemma simS_bind:
  assumes "simS D m m'" and "\<And>s' d'. agree D s' d' \<Longrightarrow> sim D (f s') (f' (s'\<lparr>data := d'\<rparr>))"
  shows "sim D (bindE m f) (bindE m' f')"
  using assms unfolding sim_def simS_def by (fastforce simp: bindE_eq_Inr)

lemma simS_bindS:
  assumes "simS D m m'" and "\<And>s' d'. agree D s' d' \<Longrightarrow> simS D (f s') (f' (s'\<lparr>data := d'\<rparr>))"
  shows "simS D (bindE m f) (bindE m' f')"
  using assms unfolding simS_def by (fastforce simp: bindE_eq_Inr)

lemma sim_pure:
  assumes "\<And>x. sim D (f x) (f' x)"
  shows "sim D (bindE m f) (bindE m f')"
  using assms unfolding sim_def by (fastforce simp: bindE_eq_Inr)

lemma sim_if:
  assumes "c \<Longrightarrow> sim D a a'" and "\<not> c \<Longrightarrow> sim D b b'"
  shows "sim D (if c then a else b) (if c then a' else b')"
  using assms by simp

lemma g_rd_sim:
  assumes "agree D s d" and "\<And>v. sim D (f v) (f' v)"
  shows "sim D (bindE (g_rd s a) f) (bindE (l3rd (s\<lparr>data := d\<rparr>) a) f')"
proof (cases "unat a < PDL_BASE")
  case True
  with assms(1) have "d a = data s a" by (simp add: agree_def)
  with True have "g_rd s a = Inr (data s a)" "l3rd (s\<lparr>data := d\<rparr>) a = Inr (data s a)"
    by (simp_all add: g_rd_def l3rd_def rd_def PDL_BASE_val TOP_val)
  with assms(2) show ?thesis by simp
next
  case False
  then have "g_rd s a = Inl OutOfBounds" by (simp add: g_rd_def rd_def)
  then show ?thesis by (simp add: sim_def)
qed

lemma g_wr_sim:
  assumes "agree D s d"
  shows "simS D (g_wr s a v) (l3wr (s\<lparr>data := d\<rparr>) a v)"
proof (cases "unat a < PDL_BASE")
  case True
  then have "g_wr s a v = Inr (s\<lparr>data := (data s)(a := v)\<rparr>)"
    "l3wr (s\<lparr>data := d\<rparr>) a v = Inr (s\<lparr>data := (data s)(a := v)\<rparr>\<lparr>data := d(a := v)\<rparr>)"
    by (simp_all add: g_wr_def l3wr_def wr_def PDL_BASE_val TOP_val)
  moreover have "agree D (s\<lparr>data := (data s)(a := v)\<rparr>) (d(a := v))"
    using assms by (simp add: agree_def)
  ultimately show ?thesis by (intro simSI) simp_all
next
  case False
  then have "g_wr s a v = Inl OutOfBounds" by (simp add: g_wr_def wr_def)
  then show ?thesis by (simp add: simS_def)
qed

lemma push_sim:
  assumes "agree D s d"
  shows "simS D (l3uPush v s) (l3uPush v (s\<lparr>data := d\<rparr>))"
proof (cases "unat (up s - 1) < TOP")
  case True
  let ?s' = "s\<lparr>data := (data s)(up s - 1 := v), up := up s - 1\<rparr>"
  from True have e: "l3uPush v s = Inr ?s'"
    "l3uPush v (s\<lparr>data := d\<rparr>) = Inr (?s'\<lparr>data := d(up s - 1 := v)\<rparr>)"
    by (simp_all add: l3uPush_def wr_def)
  from l3uPush_up[OF e(1)] have u: "unat (up s - 1) + 1 = unat (up s)" by simp
  have "agree D ?s' (d(up s - 1 := v))"
    unfolding agree_def
  proof (intro allI impI)
    fix a
    assume a: "a \<notin> D \<or> unat a < PDL_BASE \<or> (unat (up ?s') \<le> unat a \<and> unat a < TOP)"
    show "(d(up s - 1 := v)) a = data ?s' a"
    proof (cases "a = up s - 1")
      case True
      then show ?thesis by simp
    next
      case False
      then have "unat a \<noteq> unat (up s - 1)" by (simp add: word_unat_eq_iff)
      with a u have "a \<notin> D \<or> unat a < PDL_BASE \<or> (unat (up s) \<le> unat a \<and> unat a < TOP)"
        by auto
      with assms have "d a = data s a" by (simp add: agree_def)
      with False show ?thesis by simp
    qed
  qed
  with e show ?thesis by (intro simSI) simp_all
next
  case False
  then have "l3uPush v s = Inl OutOfBounds" by (simp add: l3uPush_def wr_def)
  then show ?thesis by (simp add: simS_def)
qed

lemma pop_sim:
  assumes "agree D s d"
  shows "sim D (l3uPop s) (l3uPop (s\<lparr>data := d\<rparr>))"
proof (cases "unat (up s) < TOP")
  case True
  with assms have v: "d (up s) = data s (up s)" by (simp add: agree_def)
  from True have e: "l3uPop s = Inr (data s (up s), s\<lparr>up := up s + 1\<rparr>)"
    "l3uPop (s\<lparr>data := d\<rparr>) = Inr (d (up s), s\<lparr>up := up s + 1\<rparr>\<lparr>data := d\<rparr>)"
    by (simp_all add: l3uPop_def rd_def)
  from True have u: "unat (up s + 1) = unat (up s) + 1" by (rule unat_succ_TOP)
  have "agree D (s\<lparr>up := up s + 1\<rparr>) d"
    using assms u by (auto simp: agree_def)
  with e v show ?thesis by (intro simI) simp_all
next
  case False
  then have "l3uPop s = Inl OutOfBounds" by (simp add: l3uPop_def rd_def)
  then show ?thesis by (simp add: sim_def)
qed

lemma deref_loop_mono:
  "deref_loop n PDL_BASE d addr t v = Inr r \<Longrightarrow> \<forall>a. unat a < PDL_BASE \<longrightarrow> d' a = d a \<Longrightarrow>
   deref_loop n TOP d' addr t v = Inr r"
proof (induction n arbitrary: addr t v)
  case 0
  then show ?case by simp
next
  case (Suc n)
  show ?case
  proof (cases "t = REF_tag")
    case False
    with Suc.prems show ?thesis by simp
  next
    case True
    with Suc.prems(1) have r: "unat v < PDL_BASE" by (auto simp: rd_def split: if_splits)
    with Suc.prems(2) have e: "d' v = d v" by simp
    from r have r': "unat v < TOP" by (simp add: PDL_BASE_val TOP_val)
    show ?thesis
    proof (cases "v = val_of (d v)")
      case True
      with Suc.prems(1) \<open>t = REF_tag\<close> r r' e show ?thesis by (simp add: rd_def)
    next
      case False
      with Suc.prems(1) \<open>t = REF_tag\<close> r
      have "deref_loop n PDL_BASE d v (tag_of (d v)) (val_of (d v)) = Inr r" by (simp add: rd_def)
      from Suc.IH[OF this Suc.prems(2)] False \<open>t = REF_tag\<close> r' e show ?thesis by (simp add: rd_def)
    qed
  qed
qed

lemma deref_on_mono:
  assumes "deref_on n PDL_BASE d a = Inr r" and "\<forall>a. unat a < PDL_BASE \<longrightarrow> d' a = d a"
  shows "deref_on n TOP d' a = Inr r"
proof -
  from assms(1) have r: "unat a < PDL_BASE"
    and l: "deref_loop n PDL_BASE d a (tag_of (d a)) (val_of (d a)) = Inr r"
    by (auto simp: deref_on_def rd_def split: if_splits)
  from r assms(2) have e: "d' a = d a" by simp
  from r have "unat a < TOP" by (simp add: PDL_BASE_val TOP_val)
  with deref_loop_mono[OF l assms(2)] e show ?thesis by (simp add: deref_on_def rd_def)
qed

lemma deref_sim:
  assumes "agree D s d"
  shows "sim D (g_deref n s a) (l3deref n (s\<lparr>data := d\<rparr>) a)"
  unfolding sim_def
proof (intro allI impI)
  fix b s'
  assume "g_deref n s a = Inr (b, s')"
  then obtain t v where r: "deref_on n PDL_BASE (data s) a = Inr (b, t, v)"
    and s': "s' = s\<lparr>derefTag := t, derefVal := v\<rparr>"
    by (auto simp: g_deref_def bindE_eq_Inr)
  from assms have "\<forall>a. unat a < PDL_BASE \<longrightarrow> d a = data s a" by (simp add: agree_def)
  from deref_on_mono[OF r this] have "l3deref n (s\<lparr>data := d\<rparr>) a = Inr (b, s'\<lparr>data := d\<rparr>)"
    by (simp add: l3deref_def s')
  moreover from assms s' have "agree D s' d" by (simp add: agree_def)
  ultimately show "\<exists>d'. l3deref n (s\<lparr>data := d\<rparr>) a = Inr (b, s'\<lparr>data := d'\<rparr>) \<and> agree D s' d'"
    by blast
qed

lemma push_args_sim:
  "agree D s d \<Longrightarrow> simS D (l3push_args v1 v2 is s) (l3push_args v1 v2 is (s\<lparr>data := d\<rparr>))"
proof (induction "is" arbitrary: s d)
  case Nil
  then show ?case by (simp add: simS_Inr)
next
  case (Cons i "is")
  show ?case
    apply (simp only: l3push_args.simps)
    apply (rule simS_bindS, rule push_sim, rule Cons.prems)
    apply (rule simS_bindS, erule push_sim)
    apply (erule Cons.IH)
    done
qed

lemma SET_VAR_sim:
  "agree D s d \<Longrightarrow> sim D (g_SET_VAR code l s) (l3_SET_VAR code l (s\<lparr>data := d\<rparr>))"
  unfolding g_SET_VAR_def l3_SET_VAR_def
  apply (rule sim_pure)
  apply (rule simS_bind, erule g_wr_sim)
  apply (rule g_rd_sim, assumption)
  apply (rule simS_bind, erule g_wr_sim)
  apply (erule sim_Inr)
  done

lemma deref_regs_data:
  "derefTag (s\<lparr>data := d\<rparr>) = derefTag s" "derefVal (s\<lparr>data := d\<rparr>) = derefVal s"
  by simp_all

lemma raw_wr_sim:
  assumes "agree D s d"
  shows "sim D (bindE (wr PDL_BASE (data s) a v) (\<lambda>m. Inr (x, s\<lparr>data := m\<rparr>)))
               (bindE (wr TOP (data (s\<lparr>data := d\<rparr>)) a v) (\<lambda>m. Inr (x, s\<lparr>data := d\<rparr>\<lparr>data := m\<rparr>)))"
proof -
  have "simS D (g_wr s a v) (l3wr (s\<lparr>data := d\<rparr>) a v)" using assms by (rule g_wr_sim)
  then show ?thesis
    unfolding sim_def simS_def g_wr_def l3wr_def by (fastforce simp: bindE_eq_Inr)
qed

lemma raw_rd_sim:
  assumes "agree D s d" and "\<And>v. sim D (f v) (f' v)"
  shows "sim D (bindE (rd PDL_BASE (data s) a) f) (bindE (rd TOP (data (s\<lparr>data := d\<rparr>)) a) f')"
  using g_rd_sim[OF assms, of a] by (simp add: g_rd_def l3rd_def)

lemma unify_pair_sim:
  assumes a: "agree D s d"
  shows "sim D (g_unify_pair d1 t1 v1 d2 t2 v2 s) (l3unify_pair d1 t1 v1 d2 t2 v2 (s\<lparr>data := d\<rparr>))"
  unfolding g_unify_pair_def l3unify_pair_def Let_def
  apply (rule sim_if)
   apply (rule sim_if)
    apply (rule raw_wr_sim, rule a)
   apply (rule sim_if)
    apply (rule raw_wr_sim, rule a)
   apply (rule raw_rd_sim, rule a)
   apply (rule raw_rd_sim, rule a)
   apply (rule sim_if)
    apply (rule simS_bind, rule push_args_sim, rule a)
    apply (erule sim_Inr)
   apply (rule sim_Inr, rule a)
  apply (rule sim_Inr, rule a)
  done

lemma unify_body_sim:
  assumes a: "agree D s d"
  shows "sim D (g_unify_body n s) (l3unify_body n (s\<lparr>data := d\<rparr>))"
  unfolding g_unify_body_def l3unify_body_def Let_def
  apply (rule sim_bind, rule pop_sim, rule a)
  apply (rule sim_bind, erule deref_sim)
  apply (rule sim_bind, erule pop_sim)
  apply (rule sim_bind, erule deref_sim)
  apply (simp only: deref_regs_data)
  apply (erule unify_pair_sim)
  done

lemma unify_loop_sim:
  "agree D s d \<Longrightarrow> sim D (g_unify_loop n s) (l3unify_loop n (s\<lparr>data := d\<rparr>))"
proof (induction n arbitrary: s d)
  case 0
  show ?case by (simp add: sim_def)
next
  case (Suc n)
  have e: "l3uEmpty (s\<lparr>data := d\<rparr>) = l3uEmpty s" by (simp add: l3uEmpty_def)
  show ?case
    apply (simp only: g_unify_loop.simps l3unify_loop.simps e)
    apply (rule sim_if)
     apply (rule sim_bind, rule unify_body_sim, rule Suc.prems)
     apply (rule sim_if)
      apply (erule sim_Inr)
     apply (erule Suc.IH)
    apply (rule sim_Inr, rule Suc.prems)
    done
qed

lemma unify_sim:
  assumes a: "agree D s d"
  shows "sim D (g_unify n s a1 a2) (l3unify n (s\<lparr>data := d\<rparr>) a1 a2)"
  unfolding g_unify_def l3unify_def
  apply (rule simS_bind, rule push_sim, rule a)
  apply (rule simS_bind, erule push_sim)
  apply (rule sim_bind, erule unify_loop_sim)
  apply (erule sim_Inr)
  done

lemma PUT_STRUC_sim:
  "agree D s d \<Longrightarrow> sim D (g_PUT_STRUC code l s) (l3_PUT_STRUC code l (s\<lparr>data := d\<rparr>))"
  unfolding g_PUT_STRUC_def l3_PUT_STRUC_def
  apply (rule sim_pure)
  apply (rule sim_pure)
  apply (rule simS_bind, erule g_wr_sim)
  apply (rule simS_bind, erule g_wr_sim)
  apply (rule g_rd_sim, assumption)
  apply (rule simS_bind, erule g_wr_sim)
  apply (erule sim_Inr)
  done

lemma SET_VAL_sim:
  "agree D s d \<Longrightarrow> sim D (g_SET_VAL code l s) (l3_SET_VAL code l (s\<lparr>data := d\<rparr>))"
  unfolding g_SET_VAL_def l3_SET_VAL_def
  apply (rule sim_pure)
  apply (rule g_rd_sim, assumption)
  apply (rule simS_bind, erule g_wr_sim)
  apply (erule sim_Inr)
  done

lemma GET_STRUC_sim:
  "agree D s d \<Longrightarrow> sim D (g_GET_STRUC n code l s) (l3_GET_STRUC n code l (s\<lparr>data := d\<rparr>))"
  unfolding g_GET_STRUC_def l3_GET_STRUC_def Let_def
  apply (rule sim_pure)
  apply (rule sim_pure)
  apply (rule sim_bind, erule deref_sim)
  apply (simp only: deref_regs_data)
  apply (rule sim_if)
   apply (rule simS_bind, erule g_wr_sim)
   apply (rule simS_bind, erule g_wr_sim)
   apply (rule simS_bind, erule g_wr_sim)
   apply (erule sim_Inr)
  apply (rule sim_if)
   apply (rule g_rd_sim, assumption)
   apply (rule sim_if)
    apply (erule sim_Inr)
   apply (erule sim_Inr)
  apply (erule sim_Inr)
  done

lemma UNIFY_VAR_sim:
  "agree D s d \<Longrightarrow> sim D (g_UNIFY_VAR code l s) (l3_UNIFY_VAR code l (s\<lparr>data := d\<rparr>))"
  unfolding g_UNIFY_VAR_def l3_UNIFY_VAR_def
  apply (rule sim_pure)
  apply (rule sim_if)
   apply (rule g_rd_sim, assumption)
   apply (rule simS_bind, erule g_wr_sim)
   apply (erule sim_Inr)
  apply (rule simS_bind, erule g_wr_sim)
  apply (rule g_rd_sim, assumption)
  apply (rule simS_bind, erule g_wr_sim)
  apply (erule sim_Inr)
  done

lemma UNIFY_VAL_sim:
  "agree D s d \<Longrightarrow> sim D (g_UNIFY_VAL n code l s) (l3_UNIFY_VAL n code l (s\<lparr>data := d\<rparr>))"
  unfolding g_UNIFY_VAL_def l3_UNIFY_VAL_def
  apply (rule sim_pure)
  apply (rule sim_if)
   apply (rule sim_bind, erule unify_sim)
   apply (erule sim_Inr)
  apply (rule g_rd_sim, assumption)
  apply (rule simS_bind, erule g_wr_sim)
  apply (erule sim_Inr)
  done

lemma PUT_VAR_sim:
  "agree D s d \<Longrightarrow> sim D (g_PUT_VAR code l s) (l3_PUT_VAR code l (s\<lparr>data := d\<rparr>))"
  unfolding g_PUT_VAR_def l3_PUT_VAR_def
  apply (rule sim_pure)
  apply (rule sim_pure)
  apply (rule simS_bind, erule g_wr_sim)
  apply (rule g_rd_sim, assumption)
  apply (rule simS_bind, erule g_wr_sim)
  apply (rule g_rd_sim, assumption)
  apply (rule simS_bind, erule g_wr_sim)
  apply (erule sim_Inr)
  done

lemma PUT_VAL_sim:
  "agree D s d \<Longrightarrow> sim D (g_PUT_VAL code l s) (l3_PUT_VAL code l (s\<lparr>data := d\<rparr>))"
  unfolding g_PUT_VAL_def l3_PUT_VAL_def
  apply (rule sim_pure)
  apply (rule sim_pure)
  apply (rule g_rd_sim, assumption)
  apply (rule simS_bind, erule g_wr_sim)
  apply (erule sim_Inr)
  done

lemma GET_VAR_sim:
  "agree D s d \<Longrightarrow> sim D (g_GET_VAR code l s) (l3_GET_VAR code l (s\<lparr>data := d\<rparr>))"
  unfolding g_GET_VAR_def l3_GET_VAR_def
  apply (rule sim_pure)
  apply (rule sim_pure)
  apply (rule g_rd_sim, assumption)
  apply (rule simS_bind, erule g_wr_sim)
  apply (erule sim_Inr)
  done

lemma GET_VAL_sim:
  "agree D s d \<Longrightarrow> sim D (g_GET_VAL n code l s) (l3_GET_VAL n code l (s\<lparr>data := d\<rparr>))"
  unfolding g_GET_VAL_def l3_GET_VAL_def
  apply (rule sim_pure)
  apply (rule sim_pure)
  apply (rule sim_bind, erule unify_sim)
  apply (erule sim_Inr)
  done

lemma CALL_sim:
  "agree D s d \<Longrightarrow> sim D (l3_CALL code l s) (l3_CALL code l (s\<lparr>data := d\<rparr>))"
  unfolding l3_CALL_def
  apply (rule sim_pure)
  apply (rule sim_if)
   apply (erule sim_Inr)
  apply (erule sim_Inr)
  done

lemma PROCEED_sim:
  "agree D s d \<Longrightarrow> sim D (l3_PROCEED l s) (l3_PROCEED l (s\<lparr>data := d\<rparr>))"
  unfolding l3_PROCEED_def by (erule sim_Inr)

lemma ALLOCATE_sim:
  "agree D s d \<Longrightarrow> sim D (g_ALLOCATE code l s) (l3_ALLOCATE code l (s\<lparr>data := d\<rparr>))"
  unfolding g_ALLOCATE_def l3_ALLOCATE_def Let_def
  apply (rule sim_pure)
  apply (rule simS_bind, erule g_wr_sim)
  apply (rule simS_bind, erule g_wr_sim)
  apply (rule simS_bind, erule g_wr_sim)
  apply (erule sim_Inr)
  done

lemma DEALLOCATE_sim:
  "agree D s d \<Longrightarrow> sim D (g_DEALLOCATE l s) (l3_DEALLOCATE l (s\<lparr>data := d\<rparr>))"
  unfolding g_DEALLOCATE_def l3_DEALLOCATE_def
  apply (rule g_rd_sim, assumption)
  apply (rule g_rd_sim, assumption)
  apply (erule sim_Inr)
  done

lemma step_sim:
  assumes a: "agree D s d"
  shows "sim D (g_step n code l s) (l3_step n code l (s\<lparr>data := d\<rparr>))"
  unfolding g_step_def l3_step_def
  apply (rule sim_pure)
  apply (intro sim_if)
                apply (rule PUT_STRUC_sim, rule a)
               apply (rule SET_VAR_sim, rule a)
              apply (rule SET_VAL_sim, rule a)
             apply (rule GET_STRUC_sim, rule a)
            apply (rule UNIFY_VAR_sim, rule a)
           apply (rule UNIFY_VAL_sim, rule a)
          apply (rule PUT_VAR_sim, rule a)
         apply (rule PUT_VAL_sim, rule a)
        apply (rule GET_VAR_sim, rule a)
       apply (rule GET_VAL_sim, rule a)
      apply (rule CALL_sim, rule a)
     apply (rule PROCEED_sim, rule a)
    apply (rule ALLOCATE_sim, rule a)
   apply (rule DEALLOCATE_sim, rule a)
  apply (rule sim_Inr, rule a)
  done

lemma loop_sim:
  "agree D s d \<Longrightarrow> sim D (g_loop n code l s) (l3_loop n code l (s\<lparr>data := d\<rparr>))"
proof (induction n arbitrary: l s d)
  case 0
  show ?case by (simp add: sim_def)
next
  case (Suc n)
  show ?case
    apply (simp only: g_loop.simps l3_loop.simps)
    apply (rule sim_if)
     apply (rule sim_bind, rule step_sim, rule Suc.prems)
     apply (erule Suc.IH)
    apply (rule sim_Inr, rule Suc.prems)
    done
qed

lemma execute_sim:
  assumes g: "g_execute n s code offset = Inr (r, s')"
    and a: "\<forall>a. a \<notin> D \<or> unat a < PDL_BASE \<longrightarrow> d a = data s a"
  shows "\<exists>d'. execute n (s\<lparr>up := u, data := d\<rparr>) code offset = Inr (r, s'\<lparr>data := d'\<rparr>) \<and>
              (\<forall>a. a \<notin> D \<or> unat a < PDL_BASE \<longrightarrow> d' a = data s' a)"
proof -
  let ?l0 = "fst (l3_entry s code offset)"
  from g obtain l s1 where lp: "g_loop n code ?l0 (l3uClear s) = Inr (l, s1)"
    and r: "r = (\<not> l_failed l)"
    and s': "s' = s1\<lparr>hp := l_hp l, sp := l_sp l, cp := l_cp l, ep := l_ep l, esp := l_esp l,
                  writeMode := l_writeMode l\<rparr>"
    by (auto simp: g_execute_def l3_entry_def bindE_eq_Inr)
  have "unat (of_nat TOP :: jint) = TOP" by (simp add: TOP_val)
  with a have "agree D (l3uClear s) d" by (auto simp: agree_def l3uClear_def)
  from loop_sim[OF this, of n code ?l0] lp obtain d' where
    lp': "l3_loop n code ?l0 ((l3uClear s)\<lparr>data := d\<rparr>) = Inr (l, s1\<lparr>data := d'\<rparr>)"
    and a': "agree D s1 d'"
    by (auto simp: sim_def)
  have e: "l3_entry (s\<lparr>up := u, data := d\<rparr>) code offset = (?l0, (l3uClear s)\<lparr>data := d\<rparr>)"
    by (simp add: l3_entry_def l3uClear_def)
  have "execute n (s\<lparr>up := u, data := d\<rparr>) code offset = Inr (r, s'\<lparr>data := d'\<rparr>)"
    by (simp add: execute_def e lp' r s')
  moreover from a' s' have "\<forall>a. a \<notin> D \<or> unat a < PDL_BASE \<longrightarrow> d' a = data s' a"
    by (simp add: agree_def)
  ultimately show ?thesis by blast
qed

text \<open>Evaluation of the interpreter kept out of the PDL region.\<close>

lemma g_unify_loop_numeral:
  "g_unify_loop (numeral k) s =
     (if \<not> l3uEmpty s then
        bindE (g_unify_body (pred_numeral k) s) (\<lambda>(fail, s1).
          if fail then Inr (True, s1) else g_unify_loop (pred_numeral k) s1)
      else Inr (False, s))"
  by (simp add: numeral_eq_Suc)

lemma g_loop_numeral:
  "g_loop (numeral k) code l s =
     (if \<not> l_failed l \<and> sint (l_ip l) < int (length code) then
        bindE (g_step (pred_numeral k) code l s) (\<lambda>(l1, s1). g_loop (pred_numeral k) code l1 s1)
      else Inr (l, s))"
  by (simp add: numeral_eq_Suc)

lemma g_rd_simps: "g_rd s a = (if unat a < PDL_BASE then Inr (data s a) else Inl OutOfBounds)"
  by (simp add: g_rd_def rd_def)

lemma g_wr_simps:
  "g_wr s a v = (if unat a < PDL_BASE then Inr (s\<lparr>data := (data s)(a := v)\<rparr>) else Inl OutOfBounds)"
  by (simp add: g_wr_def wr_def)

lemmas g_instr_defs = g_PUT_STRUC_def g_SET_VAR_def g_SET_VAL_def g_GET_STRUC_def g_UNIFY_VAR_def
  g_UNIFY_VAL_def g_PUT_VAR_def g_PUT_VAL_def g_GET_VAR_def g_GET_VAL_def g_ALLOCATE_def g_DEALLOCATE_def

lemmas g_eval = g_execute_def g_loop_numeral g_unify_loop_numeral g_step_def g_instr_defs g_deref_def
  g_rd_simps g_wr_simps g_unify_def g_unify_body_def g_unify_pair_def PDL_BASE_val

text \<open>
  C10, as stated, fails. Run from reset, \<open>pending_program\<close> and \<open>pending_program_sym\<close> both
  return false and leave \<open>pending_state\<close> and \<open>pending_state_sym\<close>, which have the same
  registers, heap and stack and differ in the entries left pending on the PDL: cell 21007
  holds 22 in the first and 17 in the second.
  A second call, on \<open>reader_program\<close>, unifies \<open>X5\<close> with a reference to cell 21007:
  \<open>l3unify\<close> takes the pending entry for the address of a functor cell, and the call
  returns false after the first program and true after the second. It also returns true on
  \<open>pending_state\<close> itself when the entry in cell 21007 alone is changed to 17.
\<close>

theorem pending_entry_counterexample:
  "execute 14 nativeReset pending_program 0 = Inr (False, pending_state) \<and>
   execute 14 nativeReset pending_program_sym 0 = Inr (False, pending_state_sym) \<and>
   up pending_state = 21006 \<and> data pending_state 21007 = 22 \<and> data pending_state_sym 21007 = 17 \<and>
   answer (execute 6 pending_state reader_program 0) = Inr False \<and>
   answer (execute 6 pending_state_sym reader_program 0) = Inr True \<and>
   answer (execute 6 (pending_state\<lparr>data := (data pending_state)(21007 := 17)\<rparr>) reader_program 0) =
     Inr True"
proof (intro conjI)
  show "execute 14 nativeReset pending_program 0 = Inr (False, pending_state)"
    by (simp add: pending_program_def two_structures_def pending_state_def l3_eval le32_def
        upt_conv_Cons del: upt_Suc cong: bindE_cong)
  show "execute 14 nativeReset pending_program_sym 0 = Inr (False, pending_state_sym)"
    by (simp add: pending_program_sym_def two_structures_def pending_state_sym_def pending_state_def
        l3_eval le32_def upt_conv_Cons del: upt_Suc cong: bindE_cong)
  show "up pending_state = 21006" "data pending_state 21007 = 22" "data pending_state_sym 21007 = 17"
    by (simp_all add: pending_state_def pending_state_sym_def)
  show "answer (execute 6 pending_state reader_program 0) = Inr False"
    by (simp add: answer_def reader_program_def pending_state_def l3_eval le32_def upt_conv_Cons
        del: upt_Suc cong: bindE_cong)
  show "answer (execute 6 pending_state_sym reader_program 0) = Inr True"
    by (simp add: answer_def reader_program_def pending_state_sym_def pending_state_def l3_eval le32_def
        upt_conv_Cons del: upt_Suc cong: bindE_cong)
  show "answer (execute 6 (pending_state\<lparr>data := (data pending_state)(21007 := 17)\<rparr>) reader_program 0) =
     Inr True"
    by (simp add: answer_def reader_program_def pending_state_def l3_eval le32_def upt_conv_Cons
        del: upt_Suc cong: bindE_cong)
qed

text \<open>
  C10, amended: \<open>execute\<close> empties the PDL before it decodes any instruction: its result
  never depends on the value that \<open>up\<close> had when it was called. And a call that reaches
  the cells of the PDL region by pushing and popping only does not depend on what earlier
  calls left there. If the call on the state \<open>s\<close> returns the answer \<open>r\<close> and
  the state \<open>s'\<close> in the interpreter kept out of the PDL region, then \<open>execute\<close> returns
  \<open>r\<close> and \<open>s'\<close> on \<open>s\<close>, and on every state that differs from \<open>s\<close> in \<open>up\<close> and in cells of
  the PDL region (the entries that an earlier call left pending among them) it returns the
  same answer \<open>r\<close> and a state that differs from \<open>s'\<close> in cells of the PDL region only.
\<close>

theorem pdl_entries_do_not_influence:
  assumes g: "g_execute n s code offset = Inr (r, s')"
    and a: "\<forall>a. unat a < PDL_BASE \<longrightarrow> d a = data s a"
  shows "execute n (s\<lparr>up := u\<rparr>) code offset = execute n s code offset \<and>
         execute n s code offset = Inr (r, s') \<and>
         (\<exists>d'. execute n (s\<lparr>up := u, data := d\<rparr>) code offset = Inr (r, s'\<lparr>data := d'\<rparr>) \<and>
               (\<forall>a. unat a < PDL_BASE \<longrightarrow> d' a = data s' a))"
proof (intro conjI)
  show "execute n (s\<lparr>up := u\<rparr>) code offset = execute n s code offset"
    by (simp add: execute_def l3_entry_def l3uClear_def)
next
  have "\<forall>a. a \<notin> {} \<or> unat a < PDL_BASE \<longrightarrow> data s a = data s a" by simp
  from execute_sim[OF g this, of "up s"] obtain d' where
    e: "execute n (s\<lparr>up := up s, data := data s\<rparr>) code offset = Inr (r, s'\<lparr>data := d'\<rparr>)"
    and d': "\<forall>a. a \<notin> {} \<or> unat a < PDL_BASE \<longrightarrow> d' a = data s' a" by blast
  from d' have "d' = data s'" by auto
  with e show "execute n s code offset = Inr (r, s')" by simp
next
  from a have "\<forall>a. a \<notin> UNIV \<or> unat a < PDL_BASE \<longrightarrow> d a = data s a" by simp
  from execute_sim[OF g this, of u] show
    "\<exists>d'. execute n (s\<lparr>up := u, data := d\<rparr>) code offset = Inr (r, s'\<lparr>data := d'\<rparr>) \<and>
          (\<forall>a. unat a < PDL_BASE \<longrightarrow> d' a = data s' a)" by simp
qed

theorem pdl_entries_do_not_influence_witness:
  "\<exists>d'. execute 5 (pending_state\<lparr>up := 21000, data := data pending_state_sym\<rparr>)
            [PUT_VAR, REG_ADDR, 5, 6, GET_VAL, REG_ADDR, 5, 1] 0 =
          Inr (True, pending_state\<lparr>cp := 8, hp := 25, up := 21010, derefTag := REF_tag, derefVal := 24,
                 data := d'\<rparr>) \<and>
        d' 24 = cell REF_tag 1"
proof -
  let ?code = "[PUT_VAR, REG_ADDR, 5, 6, GET_VAL, REG_ADDR, 5, 1]"
  let ?s' = "pending_state\<lparr>cp := 8, hp := 25, up := 21010, derefTag := REF_tag, derefVal := 24,
       data := (data pending_state)(5 := cell REF_tag 24, 6 := cell REF_tag 24,
                                    21009 := 5, 21008 := 1, 24 := cell REF_tag 1)\<rparr>"
  have g: "g_execute 5 pending_state ?code 0 = Inr (True, ?s')"
    by (simp add: pending_state_def g_eval l3_eval cong: bindE_cong)
  have a: "\<forall>a. unat a < PDL_BASE \<longrightarrow> data pending_state_sym a = data pending_state a"
    by (auto simp: PDL_BASE_val pending_state_sym_def)
  from pdl_entries_do_not_influence[OF g a, of 21000] obtain d' where
    e: "execute 5 (pending_state\<lparr>up := 21000, data := data pending_state_sym\<rparr>) ?code 0 =
          Inr (True, ?s'\<lparr>data := d'\<rparr>)"
    and d: "\<forall>a. unat a < PDL_BASE \<longrightarrow> d' a = data ?s' a" by blast
  from d have "d' 24 = cell REF_tag 1" by (simp add: PDL_BASE_val)
  with e show ?thesis by auto
qed

end
